theory Spec2Isabelle
  imports Complex_Main "HOL-Library.Sublist"
begin

section \<open>The download dashboard (frontend/src/App.tsx, frontend/src/observability.ts)\<close>

subsection \<open>Request metrics and error events\<close>

text \<open>
  \<^verbatim>\<open>RequestMetric\<close> and \<^verbatim>\<open>ErrorEvent\<close> of App.tsx. A duration is a JavaScript number of
  milliseconds; it is kept as an exact rational. Optional fields (\<^verbatim>\<open>traceId?\<close>,
  \<^verbatim>\<open>context?\<close>) are options. The values handed to \<^verbatim>\<open>recordMetric\<close> and
  \<^verbatim>\<open>recordError\<close> lack \<^verbatim>\<open>id\<close> and \<^verbatim>\<open>timestamp\<close>, which the state updater adds from
  \<^verbatim>\<open>crypto.randomUUID()\<close> and \<^verbatim>\<open>new Date().toISOString()\<close>: both are inputs of the model.
\<close>

record metric_input =
  mi_endpoint :: string
  mi_method :: string
  mi_duration :: rat
  mi_status :: nat
  mi_success :: bool
  mi_traceId :: string

record request_metric =
  m_id :: string
  m_endpoint :: string
  m_method :: string
  m_duration :: rat
  m_status :: nat
  m_success :: bool
  m_timestamp :: string
  m_traceId :: string

record error_input =
  ei_message :: string
  ei_traceId :: "string option"
  ei_context :: "string option"

record error_event =
  e_id :: string
  e_message :: string
  e_traceId :: "string option"
  e_timestamp :: string
  e_context :: "string option"

definition mk_metric :: "string \<Rightarrow> string \<Rightarrow> metric_input \<Rightarrow> request_metric" where
  "mk_metric uuid now metric =
     \<lparr>m_id = uuid, m_endpoint = mi_endpoint metric, m_method = mi_method metric,
      m_duration = mi_duration metric, m_status = mi_status metric,
      m_success = mi_success metric, m_timestamp = now, m_traceId = mi_traceId metric\<rparr>"

definition mk_error_event :: "string \<Rightarrow> string \<Rightarrow> error_input \<Rightarrow> error_event" where
  "mk_error_event uuid now event =
     \<lparr>e_id = uuid, e_message = ei_message event, e_traceId = ei_traceId event,
      e_timestamp = now, e_context = ei_context event\<rparr>"

text \<open>The updaters of \<^verbatim>\<open>setMetrics\<close> and \<^verbatim>\<open>setErrorEvents\<close>: prepend, then \<^verbatim>\<open>slice(0, n)\<close>.\<close>

definition recordMetric ::
  "string \<Rightarrow> string \<Rightarrow> metric_input \<Rightarrow> request_metric list \<Rightarrow> request_metric list" where
  "recordMetric uuid now metric prev = take 30 (mk_metric uuid now metric # prev)"

definition recordError ::
  "string \<Rightarrow> string \<Rightarrow> error_input \<Rightarrow> error_event list \<Rightarrow> error_event list" where
  "recordError uuid now event prev = take 20 (mk_error_event uuid now event # prev)"


subsection \<open>The metrics summary\<close>

text \<open>
  \<^verbatim>\<open>metricsSummary\<close> folds the metrics into a \<^verbatim>\<open>Map\<close> from the key
  \<^verbatim>\<open>`${metric.method} ${metric.endpoint}`\<close> to a row, and returns the rows
  (\<^verbatim>\<open>Array.from(summary.values())\<close>). A JavaScript \<^verbatim>\<open>Map\<close> iterates in the order in which
  its keys were first set, and \<^verbatim>\<open>set\<close> on a present key keeps its place: an association
  list updated in place, extended at the end.
\<close>

record summary_row =
  s_endpoint :: string
  s_method :: string
  s_avg :: rat
  s_count :: nat
  s_successCount :: nat

fun map_set :: "'k \<Rightarrow> 'v \<Rightarrow> ('k \<times> 'v) list \<Rightarrow> ('k \<times> 'v) list" where
  "map_set k v [] = [(k, v)]"
| "map_set k v ((k', v') # kvs) =
     (if k' = k then (k, v) # kvs else (k', v') # map_set k v kvs)"

definition metric_key :: "request_metric \<Rightarrow> string" where
  "metric_key metric = m_method metric @ '' '' @ m_endpoint metric"

definition summary_step ::
  "request_metric \<Rightarrow> (string \<times> summary_row) list \<Rightarrow> (string \<times> summary_row) list" where
  "summary_step metric summary =
     (let key = metric_key metric;
          current = (case map_of summary key of
                       Some row \<Rightarrow> row
                     | None \<Rightarrow> \<lparr>s_endpoint = m_endpoint metric, s_method = m_method metric,
                                s_avg = 0, s_count = 0, s_successCount = 0\<rparr>);
          current = current\<lparr>s_count := s_count current + 1\<rparr>;
          current = current\<lparr>s_avg := s_avg current
                        + (m_duration metric - s_avg current) / of_nat (s_count current)\<rparr>;
          current = (if m_success metric
                     then current\<lparr>s_successCount := s_successCount current + 1\<rparr>
                     else current)
      in map_set key current summary)"

definition summary_map :: "request_metric list \<Rightarrow> (string \<times> summary_row) list" where
  "summary_map metrics = fold summary_step metrics []"

definition metricsSummary :: "request_metric list \<Rightarrow> summary_row list" where
  "metricsSummary metrics = map snd (summary_map metrics)"

text \<open>
  What the fold computes for one key, written from the group: the metrics with that key, in
  list order. The row carries the method and endpoint of the first of them.
\<close>

definition key_group :: "string \<Rightarrow> request_metric list \<Rightarrow> request_metric list" where
  "key_group k metrics = filter (\<lambda>m. metric_key m = k) metrics"

definition group_row :: "request_metric list \<Rightarrow> summary_row" where
  "group_row g =
     \<lparr>s_endpoint = m_endpoint (hd g), s_method = m_method (hd g),
      s_avg = sum_list (map m_duration g) / of_nat (length g),
      s_count = length g,
      s_successCount = length (filter m_success g)\<rparr>"

definition pair_group :: "string \<Rightarrow> string \<Rightarrow> request_metric list \<Rightarrow> request_metric list" where
  "pair_group method endpoint metrics =
     filter (\<lambda>m. m_method m = method \<and> m_endpoint m = endpoint) metrics"

text \<open>The distinct elements of a list, each at its first occurrence.\<close>

definition first_seen :: "'a list \<Rightarrow> 'a list" where
  "first_seen xs = rev (remdups (rev xs))"

subsection \<open>JavaScript values\<close>

text \<open>
  A JavaScript number is an IEEE double: a finite value (a rational; the sign of zero is
  not kept, no code here reads it), an infinity or NaN.
\<close>

datatype jsnum = Finite rat | PosInfinity | NegInfinity | NaN

text \<open>
  A thrown value is an \<^verbatim>\<open>Error\<close> with its message, a value that \<^verbatim>\<open>String(...)\<close> converts to
  a string (kept as that string), or a value whose conversion itself throws (an object
  without \<^verbatim>\<open>toString\<close>, or whose \<^verbatim>\<open>toString\<close> throws), kept with what the conversion throws.
  \<open>err_message\<close> is \<^verbatim>\<open>err instanceof Error ? err.message : String(err)\<close>: the string, or
  the value thrown while computing it.
\<close>

datatype thrown = ErrorObj string | OtherValue string | Unconvertible thrown

fun err_message :: "thrown \<Rightarrow> thrown + string" where
  "err_message (ErrorObj msg) = Inr msg"
| "err_message (OtherValue str) = Inr str"
| "err_message (Unconvertible e) = Inl e"

definition has_message :: "thrown \<Rightarrow> bool" where
  "has_message err = (case err_message err of Inr msg \<Rightarrow> True | Inl e \<Rightarrow> False)"

text \<open>Truthiness of a \<^verbatim>\<open>string | null | undefined\<close> and of an optional boolean.\<close>

fun truthy_string :: "string option \<Rightarrow> bool" where
  "truthy_string None = False"
| "truthy_string (Some s) = (s \<noteq> [])"

fun truthy_bool :: "bool option \<Rightarrow> bool" where
  "truthy_bool None = False"
| "truthy_bool (Some b) = b"

text \<open>A natural number in a template literal: its decimal digits.\<close>

fun digit_char :: "nat \<Rightarrow> char" where
  "digit_char d = char_of (of_char CHR ''0'' + d)"

fun nat_to_string :: "nat \<Rightarrow> string" where
  "nat_to_string n = (if n < 10 then [digit_char n] else nat_to_string (n div 10) @ [digit_char (n mod 10)])"

declare digit_char.simps [simp del]

declare nat_to_string.simps [simp del]

subsection \<open>JavaScript strings and \<^verbatim>\<open>Number(string)\<close>\<close>

text \<open>
  Where the code looks at the characters of a string, the string is the list of its UTF-16
  code units. \<open>str\<close> turns a literal of ASCII characters into one.
\<close>

type_synonym js_string = "nat list"

definition cu :: "char \<Rightarrow> nat" where
  "cu c = of_char c"

definition str :: "string \<Rightarrow> js_string" where
  "str s = map cu s"

text \<open>
  The characters matched by \<^verbatim>\<open>\s\<close>, removed by \<^verbatim>\<open>trim()\<close> and skipped by \<^verbatim>\<open>Number\<close>
  (WhiteSpace and LineTerminator of ECMAScript): TAB, LF, VT, FF, CR, SP, NBSP, U+1680,
  U+2000 to U+200A, U+2028, U+2029, U+202F, U+205F, U+3000 and U+FEFF.
\<close>

definition is_space :: "nat \<Rightarrow> bool" where
  "is_space u =
     (u \<in> {9, 10, 11, 12, 13, 32, 160, 5760, 8232, 8233, 8239, 8287, 12288, 65279}
      \<or> (8192 \<le> u \<and> u \<le> 8202))"

definition trim :: "js_string \<Rightarrow> js_string" where
  "trim s = rev (dropWhile is_space (rev (dropWhile is_space s)))"

text \<open>The separator class \<^verbatim>\<open>[\s,]\<close> of \<^verbatim>\<open>parseFileIds\<close>.\<close>

definition is_separator :: "nat \<Rightarrow> bool" where
  "is_separator u = (is_space u \<or> u = cu CHR '','')"

text \<open>
  \<^verbatim>\<open>input.split(/[\s,]+/)\<close>: the pieces of the input between the maximal runs of
  separators. A separator run at the start or at the end leaves an empty piece there, and
  the empty input gives one empty piece. \<open>split_from piece in_run\<close> reads the rest of
  the input with the current piece and whether the last character was a separator.
\<close>

fun split_from :: "js_string \<Rightarrow> bool \<Rightarrow> js_string \<Rightarrow> js_string list" where
  "split_from piece in_run [] = [piece]"
| "split_from piece in_run (u # us) =
     (if is_separator u
      then (if in_run then split_from piece True us else piece # split_from [] True us)
      else split_from (piece @ [u]) False us)"

definition split_separators :: "js_string \<Rightarrow> js_string list" where
  "split_separators input = split_from [] False input"

subsubsection \<open>Rounding to a double\<close>

text \<open>
  The value of a numeric literal is rounded to the nearest double, ties to even
  (engines round every literal correctly). \<open>round_double N D\<close> rounds \<open>N / D\<close>:
  with \<open>2 ^ e \<le> N / D < 2 ^ (e + 1)\<close> and \<open>e\<close> at least \<open>-1022\<close>, the doubles around
  \<open>N / D\<close> are the multiples of \<open>2 ^ (e - 52)\<close>; from \<open>2 ^ 1024\<close> on the result is
  infinite.
\<close>

fun bits :: "nat \<Rightarrow> nat" where
  "bits n = (if n = 0 then 0 else Suc (bits (n div 2)))"

declare bits.simps [simp del]

definition pow2 :: "int \<Rightarrow> rat" where
  "pow2 k = (if 0 \<le> k then 2 ^ nat k else 1 / 2 ^ nat (- k))"

definition round_half_even :: "nat \<Rightarrow> nat \<Rightarrow> nat" where
  "round_half_even a b =
     (let q = a div b; r = a mod b
      in if 2 * r < b then q
         else if b < 2 * r then q + 1
         else if even q then q else q + 1)"

definition round_double :: "nat \<Rightarrow> nat \<Rightarrow> jsnum" where
  "round_double N D =
     (if N = 0 then Finite 0
      else
        (let d = int (bits N) - int (bits D);
             e = (if D * 2 ^ nat d \<le> N * 2 ^ nat (- d) then d else d - 1);
             e = max e (- 1022);
             n = round_half_even (N * 2 ^ nat (52 - e)) (D * 2 ^ nat (e - 52));
             v = of_nat n * pow2 (e - 52)
         in if 2 ^ 1024 \<le> v then PosInfinity else Finite v))"

subsubsection \<open>StringToNumber\<close>

definition is_digit :: "nat \<Rightarrow> bool" where
  "is_digit u = (cu CHR ''0'' \<le> u \<and> u \<le> cu CHR ''9'')"

definition hex_value :: "nat \<Rightarrow> nat option" where
  "hex_value u =
     (if cu CHR ''0'' \<le> u \<and> u \<le> cu CHR ''9'' then Some (u - cu CHR ''0'')
      else if cu CHR ''a'' \<le> u \<and> u \<le> cu CHR ''f'' then Some (u - cu CHR ''a'' + 10)
      else if cu CHR ''A'' \<le> u \<and> u \<le> cu CHR ''F'' then Some (u - cu CHR ''A'' + 10)
      else None)"

text \<open>The digits of a literal in a base, all below the base, or no value.\<close>

definition is_base_digit :: "nat \<Rightarrow> nat \<Rightarrow> bool" where
  "is_base_digit base u = (case hex_value u of Some v \<Rightarrow> v < base | None \<Rightarrow> False)"

definition digits_value :: "nat \<Rightarrow> js_string \<Rightarrow> nat" where
  "digits_value base ds = foldl (\<lambda>acc u. acc * base + (case hex_value u of Some v \<Rightarrow> v | None \<Rightarrow> 0)) 0 ds"

text \<open>\<^verbatim>\<open>0b\<close>, \<^verbatim>\<open>0o\<close> and \<^verbatim>\<open>0x\<close> literals (NonDecimalIntegerLiteral): no sign, one digit at least.\<close>

definition non_decimal_base :: "nat \<Rightarrow> nat option" where
  "non_decimal_base u =
     (if u = cu CHR ''b'' \<or> u = cu CHR ''B'' then Some 2
      else if u = cu CHR ''o'' \<or> u = cu CHR ''O'' then Some 8
      else if u = cu CHR ''x'' \<or> u = cu CHR ''X'' then Some 16
      else None)"

fun parse_non_decimal :: "js_string \<Rightarrow> jsnum option" where
  "parse_non_decimal (z # x # ds) =
     (if z = cu CHR ''0'' then
        (case non_decimal_base x of
           Some base \<Rightarrow>
             if ds \<noteq> [] \<and> list_all (is_base_digit base) ds
             then Some (round_double (digits_value base ds) 1)
             else None
         | None \<Rightarrow> None)
      else None)"
| "parse_non_decimal s = None"

text \<open>
  The exponent part, which must reach the end of the literal: nothing, or \<^verbatim>\<open>e\<close> or \<^verbatim>\<open>E\<close>, an
  optional sign and digits.
\<close>

definition parse_exponent :: "js_string \<Rightarrow> int option" where
  "parse_exponent r =
     (case r of
        [] \<Rightarrow> Some 0
      | u # r' \<Rightarrow>
          if u = cu CHR ''e'' \<or> u = cu CHR ''E'' then
            (let (negative, ds) =
                   (case r' of
                      [] \<Rightarrow> (False, [])
                    | s # r'' \<Rightarrow>
                        if s = cu CHR ''+'' then (False, r'')
                        else if s = cu CHR ''-'' then (True, r'')
                        else (False, r'))
             in if ds \<noteq> [] \<and> list_all is_digit ds
                then Some (if negative then - int (digits_value 10 ds) else int (digits_value 10 ds))
                else None)
          else None)"

text \<open>The mathematical value \<open>m * 10 ^ k\<close> of a decimal literal, rounded.\<close>

definition round_decimal :: "nat \<Rightarrow> int \<Rightarrow> jsnum" where
  "round_decimal m k = round_double (m * 10 ^ nat k) (10 ^ nat (- k))"

text \<open>
  StrUnsignedDecimalLiteral: \<^verbatim>\<open>Infinity\<close>, or digits with an optional fraction and an
  optional exponent, where the integer part or the fraction has a digit.
\<close>

definition parse_unsigned_decimal :: "js_string \<Rightarrow> jsnum option" where
  "parse_unsigned_decimal s =
     (if s = str ''Infinity'' then Some PosInfinity
      else
        (let ip = takeWhile is_digit s;
             r = dropWhile is_digit s;
             (fp, r) = (case r of
                          [] \<Rightarrow> ([], [])
                        | u # r' \<Rightarrow>
                            if u = cu CHR ''.'' then (takeWhile is_digit r', dropWhile is_digit r')
                            else ([], r))
         in if ip = [] \<and> fp = [] then None
            else (case parse_exponent r of
                    None \<Rightarrow> None
                  | Some ex \<Rightarrow> Some (round_decimal (digits_value 10 (ip @ fp)) (ex - int (length fp))))))"

fun negate :: "jsnum \<Rightarrow> jsnum" where
  "negate (Finite q) = Finite (- q)"
| "negate PosInfinity = NegInfinity"
| "negate NegInfinity = PosInfinity"
| "negate NaN = NaN"

definition or_NaN :: "jsnum option \<Rightarrow> jsnum" where
  "or_NaN v = (case v of Some x \<Rightarrow> x | None \<Rightarrow> NaN)"

text \<open>
  \<^verbatim>\<open>Number(s)\<close> for a string: white space is removed at both ends; the empty string is 0;
  a string that is no numeric literal is NaN. A sign is read before a decimal literal only.
\<close>

definition Number :: "js_string \<Rightarrow> jsnum" where
  "Number s =
     (let text = trim s
      in case text of
           [] \<Rightarrow> Finite 0
         | u # r \<Rightarrow>
             (case parse_non_decimal text of
                Some v \<Rightarrow> v
              | None \<Rightarrow>
                  if u = cu CHR ''+'' then or_NaN (parse_unsigned_decimal r)
                  else if u = cu CHR ''-'' then negate (or_NaN (parse_unsigned_decimal r))
                  else or_NaN (parse_unsigned_decimal text)))"

subsection \<open>observability.ts: spans, Sentry, instrumentedFetch\<close>

text \<open>
  The OpenTelemetry span and the Sentry client are external objects: a span is modelled
  by its name, its initial attributes, its trace id and the calls made on it, in order; Sentry by
  the calls made on it. Context propagation (the parent context of a span, the trace
  headers that \<^verbatim>\<open>propagation.inject\<close> adds to the request) is not part of the model.
\<close>

datatype attr_value = AttrString string | AttrNumber nat

datatype SpanStatusCode = UNSET | OK | ERROR

datatype span_call =
    SetAttribute string attr_value
  | SetStatus SpanStatusCode "string option"
  | RecordException thrown
  | End

record span =
  sp_name :: string
  sp_attributes :: "(string \<times> attr_value) list"
  sp_traceId :: string
  sp_calls :: "span_call list"

definition startSpan :: "string \<Rightarrow> (string \<times> attr_value) list \<Rightarrow> string \<Rightarrow> span" where
  "startSpan name attributes traceId =
     \<lparr>sp_name = name, sp_attributes = attributes, sp_traceId = traceId, sp_calls = []\<rparr>"

definition span_call :: "span_call \<Rightarrow> span \<Rightarrow> span" where
  "span_call c sp = sp\<lparr>sp_calls := sp_calls sp @ [c]\<rparr>"

datatype extra_value = ExtraString string | ExtraNumber nat | ExtraThrown thrown

datatype sentry_call =
    CaptureException thrown
  | CaptureMessage string "(string \<times> extra_value) list"
  | ShowReportDialog

record initiate_body =
  b_file_ids :: "jsnum list"
  b_clientRequestId :: string
  b_userId :: string

text \<open>\<^verbatim>\<open>RequestInit\<close>, as far as the code sets it; the body is the object given to \<^verbatim>\<open>JSON.stringify\<close>.\<close>

record request_init =
  i_method :: "string option"
  i_headers :: "(string \<times> string) list"
  i_body :: "initiate_body option"

definition no_init :: request_init where
  "no_init = \<lparr>i_method = None, i_headers = [], i_body = None\<rparr>"

record http_request =
  rq_url :: string
  rq_init :: request_init

text \<open>
  A \<^verbatim>\<open>Response\<close>: \<^verbatim>\<open>ok\<close> is true for a status from 200 to 299; \<^verbatim>\<open>text()\<close> gives the body,
  \<^verbatim>\<open>json()\<close> the parsed body or rejects.
\<close>

record 'a response =
  r_status :: nat
  r_text :: string
  r_json :: "thrown + 'a"

definition r_ok :: "'a response \<Rightarrow> bool" where
  "r_ok res = (200 \<le> r_status res \<and> r_status res \<le> 299)"

datatype 'a fetch_outcome = Rejects thrown | Resolves "'a response"

text \<open>
  What the program does to the outside: the calls of \<^verbatim>\<open>fetch\<close>, the calls of Sentry, the
  spans it is done with (each with the calls made on it: a span without \<open>End\<close> among them
  was never ended), and the windows it opened.
\<close>

record effects =
  fx_fetched :: "http_request list"
  fx_sentry :: "sentry_call list"
  fx_spans :: "span list"
  fx_opened :: "(string \<times> string) list"

definition no_effects :: effects where
  "no_effects = \<lparr>fx_fetched = [], fx_sentry = [], fx_spans = [], fx_opened = []\<rparr>"

record 'a on_record_args =
  oa_traceId :: string
  oa_duration :: rat
  oa_response :: "'a response"

text \<open>
  \<^verbatim>\<open>InstrumentedFetchOptions\<close>. The callback \<^verbatim>\<open>onRecord\<close> is code of the caller: it changes
  the caller's state \<^typ>\<open>'s\<close> and may throw. \<^verbatim>\<open>parentSpan\<close> only selects the parent context of
  the new span and is left out.
\<close>

record ('a, 's) fetch_options =
  o_spanName :: "string option"
  o_onRecord :: "('a on_record_args \<Rightarrow> 's \<Rightarrow> thrown option \<times> 's) option"
  o_ignoreErrors :: "bool option"

text \<open>What one call reads from its environment: the trace id of the new span, the two
  readings of \<^verbatim>\<open>performance.now()\<close>, and what \<^verbatim>\<open>fetch\<close> does.\<close>

record 'a fetch_env =
  fe_traceId :: string
  fe_started :: rat
  fe_finished :: rat
  fe_outcome :: "'a fetch_outcome"

record 'a fetch_result =
  fr_response :: "'a response"
  fr_traceId :: string
  fr_duration :: rat

definition method_or_GET :: "request_init \<Rightarrow> string" where
  "method_or_GET init = (case i_method init of None \<Rightarrow> ''GET'' | Some m \<Rightarrow> m)"

subsubsection \<open>The Headers constructor\<close>

text \<open>
  \<^verbatim>\<open>new Headers(init.headers ?? {})\<close> throws a TypeError unless every name is a header name
  (a non-empty token) and every value, with HTTP white space removed at both ends, is a
  header value (no NUL, LF or CR). Strings are byte strings here, so the further TypeError
  for a character above U+00FF has no input in the model.
\<close>

definition is_tchar :: "char \<Rightarrow> bool" where
  "is_tchar c =
     (let n = (of_char c :: nat)
      in (48 \<le> n \<and> n \<le> 57) \<or> (65 \<le> n \<and> n \<le> 90) \<or> (97 \<le> n \<and> n \<le> 122)
         \<or> n \<in> {33, 35, 36, 37, 38, 39, 42, 43, 45, 46, 94, 95, 96, 124, 126})"

definition header_name_ok :: "string \<Rightarrow> bool" where
  "header_name_ok name = (name \<noteq> [] \<and> list_all is_tchar name)"

definition is_http_whitespace :: "char \<Rightarrow> bool" where
  "is_http_whitespace c = ((of_char c :: nat) \<in> {9, 10, 13, 32})"

definition normalize_value :: "string \<Rightarrow> string" where
  "normalize_value v = rev (dropWhile is_http_whitespace (rev (dropWhile is_http_whitespace v)))"

definition header_value_ok :: "string \<Rightarrow> bool" where
  "header_value_ok v = list_all (\<lambda>c. (of_char c :: nat) \<notin> {0, 10, 13}) (normalize_value v)"

definition headers_accepted :: "(string \<times> string) list \<Rightarrow> bool" where
  "headers_accepted hs = list_all (\<lambda>(name, v). header_name_ok name \<and> header_value_ok v) hs"

text \<open>The TypeError of the constructor; its message is the engine's.\<close>

definition invalid_header :: thrown where
  "invalid_header = ErrorObj ''Invalid header''"

subsubsection \<open>instrumentedFetch\<close>

text \<open>
  The call up to its \<^verbatim>\<open>await\<close>: the span is started, the headers are built and
  \<^verbatim>\<open>fetch\<close> is called. The headers are built after \<^verbatim>\<open>startSpan\<close> and before the \<^verbatim>\<open>try\<close>
  statement: when the constructor throws, the call throws with the span started and not
  ended, and \<^verbatim>\<open>fetch\<close> is not called.
\<close>

definition fetch_begin ::
  "string \<Rightarrow> string \<Rightarrow> request_init \<Rightarrow> string option \<Rightarrow> effects \<Rightarrow> (thrown + span) \<times> effects" where
  "fetch_begin traceId input init spanName fx =
     (let sp = startSpan
                 (case spanName of
                    Some name \<Rightarrow> name
                  | None \<Rightarrow> ''fetch:'' @ method_or_GET init)
                 [(''http.url'', AttrString input), (''http.method'', AttrString (method_or_GET init))]
                 traceId
      in if \<not> headers_accepted (i_headers init)
         then (Inl invalid_header, fx\<lparr>fx_spans := fx_spans fx @ [sp]\<rparr>)
         else (Inr sp, fx\<lparr>fx_fetched := fx_fetched fx @ [\<lparr>rq_url = input, rq_init = init\<rparr>]\<rparr>))"

text \<open>
  The \<^verbatim>\<open>try\<close> block once \<^verbatim>\<open>fetch\<close> has settled: the value returned or the value thrown, the
  span and the caller's state.
\<close>

definition fetch_try ::
  "'a fetch_env \<Rightarrow> ('a, 's) fetch_options \<Rightarrow> span \<Rightarrow> 's \<Rightarrow> (thrown + 'a fetch_result) \<times> span \<times> 's" where
  "fetch_try env options sp s =
     (case fe_outcome env of
        Rejects err \<Rightarrow> (Inl err, sp, s)
      | Resolves response \<Rightarrow>
          (let duration = fe_finished env - fe_started env;
               sp = span_call (SetAttribute ''http.status_code'' (AttrNumber (r_status response))) sp;
               sp = span_call (SetStatus (if r_ok response \<or> truthy_bool (o_ignoreErrors options)
                                          then OK else ERROR) None) sp;
               traceId = sp_traceId sp;
               result = \<lparr>fr_response = response, fr_traceId = traceId, fr_duration = duration\<rparr>
           in case o_onRecord options of
                None \<Rightarrow> (Inr result, sp, s)
              | Some callback \<Rightarrow>
                  (case callback \<lparr>oa_traceId = traceId, oa_duration = duration,
                                  oa_response = response\<rparr> s of
                     (None, s') \<Rightarrow> (Inr result, sp, s')
                   | (Some err, s') \<Rightarrow> (Inl err, sp, s'))))"

text \<open>
  The \<^verbatim>\<open>catch\<close> block, with the value it throws at its end. The exception is recorded on
  the span; the argument of \<^verbatim>\<open>setStatus\<close> needs the message of \<^verbatim>\<open>err\<close>, and when computing it
  throws, that value leaves the block: the status is not set and Sentry is not called.
  Otherwise the status is set, Sentry is called and \<^verbatim>\<open>err\<close> is thrown again.
\<close>

definition fetch_catch :: "thrown \<Rightarrow> span \<Rightarrow> effects \<Rightarrow> thrown \<times> span \<times> effects" where
  "fetch_catch err sp fx =
     (let sp = span_call (RecordException err) sp
      in case err_message err of
           Inl e \<Rightarrow> (e, sp, fx)
         | Inr msg \<Rightarrow>
             (let sp = span_call (SetStatus ERROR (Some msg)) sp;
                  fx = fx\<lparr>fx_sentry := fx_sentry fx @ [CaptureException err]\<rparr>
              in (err, sp, fx)))"

text \<open>The call from the moment \<^verbatim>\<open>fetch\<close> settles: \<^verbatim>\<open>try\<close>, \<^verbatim>\<open>catch\<close> and \<^verbatim>\<open>finally\<close>.\<close>

definition fetch_end ::
  "'a fetch_env \<Rightarrow> ('a, 's) fetch_options \<Rightarrow> span \<Rightarrow> effects \<times> 's
     \<Rightarrow> (thrown + 'a fetch_result) \<times> effects \<times> 's" where
  "fetch_end env options sp = (\<lambda>(fx, s).
     (let (outcome, sp, s) = fetch_try env options sp s;
          (outcome, sp, fx) =
            (case outcome of
               Inl err \<Rightarrow> (let (e, sp, fx) = fetch_catch err sp fx in (Inl e, sp, fx))
             | Inr result \<Rightarrow> (Inr result, sp, fx));
          sp = span_call End sp
      in (outcome, fx\<lparr>fx_spans := fx_spans fx @ [sp]\<rparr>, s)))"

definition instrumentedFetch ::
  "'a fetch_env \<Rightarrow> string \<Rightarrow> request_init \<Rightarrow> ('a, 's) fetch_options \<Rightarrow> effects \<times> 's
     \<Rightarrow> (thrown + 'a fetch_result) \<times> effects \<times> 's" where
  "instrumentedFetch env input init options = (\<lambda>(fx, s).
     (case fetch_begin (fe_traceId env) input init (o_spanName options) fx of
        (Inl err, fx) \<Rightarrow> (Inl err, fx, s)
      | (Inr sp, fx) \<Rightarrow> fetch_end env options sp (fx, s)))"

definition captureFrontendError :: "string \<Rightarrow> (string \<times> extra_value) list \<Rightarrow> effects \<Rightarrow> effects" where
  "captureFrontendError message contextData fx =
     fx\<lparr>fx_sentry := fx_sentry fx @ [CaptureMessage message contextData]\<rparr>"

definition showFeedbackDialog :: "string option \<Rightarrow> effects \<Rightarrow> effects" where
  "showFeedbackDialog sentryDsn fx =
     (if truthy_string sentryDsn then fx\<lparr>fx_sentry := fx_sentry fx @ [ShowReportDialog]\<rparr> else fx)"

subsection \<open>App.tsx: the state of the dashboard\<close>

datatype DownloadJobStatus =
  queued | running | processing_artifacts | completed | failed | cancelled | expired

datatype priority = standard | low

text \<open>\<^verbatim>\<open>DownloadJob\<close>; the field \<^verbatim>\<open>size\<close> is \<open>size_bytes\<close> here.\<close>

record DownloadJob =
  jobId :: string
  status :: DownloadJobStatus
  progressPercent :: nat
  message :: string
  attempts :: nat
  downloadUrl :: "string option"
  checksum :: "string option"
  size_bytes :: "nat option"
  retryAfterMs :: "nat option"
  fileIds :: "jsnum list"
  priority :: priority
  userId :: string
  createdAt :: string
  startedAt :: "string option"
  completedAt :: "string option"
  expiresAt :: string
  lastSyncedAt :: nat

datatype health_level = healthy | unhealthy

datatype storage_level = storage_ok | storage_error

record HealthStatus =
  hs_status :: health_level
  hs_storage :: storage_level
  hs_checkedAt :: string

text \<open>
  The React state of \<^verbatim>\<open>App\<close>. The job map \<^verbatim>\<open>Record<string, DownloadJob>\<close> is an
  association list in the order in which its keys were first set; \<open>own_properties\<close> below
  gives the order in which JavaScript enumerates it.
\<close>

record app_state =
  fileIdsInput :: js_string
  jobs :: "(string \<times> DownloadJob) list"
  health :: "HealthStatus option"
  isSubmitting :: bool
  initiateError :: "string option"
  metrics :: "request_metric list"
  errorEvents :: "error_event list"
  lastTraceId :: "string option"

definition initial_state :: app_state where
  "initial_state =
     \<lparr>fileIdsInput = str ''70000, 71000, 72000'',
      jobs = [], health = None, isSubmitting = False, initiateError = None,
      metrics = [], errorEvents = [], lastTraceId = None\<rparr>"

text \<open>
  The own properties of an object are enumerated with the array indices first, in
  ascending numeric order, and then the other keys in the order in which they were first
  set. An array index is the decimal numeral, without leading zeros, of an integer from 0
  to \<open>2\<^sup>3\<^sup>2 - 2\<close>.
\<close>

definition decimal_value :: "string \<Rightarrow> nat" where
  "decimal_value k = fold (\<lambda>c n. 10 * n + (of_char c - 48)) k 0"

definition array_index :: "string \<Rightarrow> nat option" where
  "array_index k =
     (if k \<noteq> [] \<and> list_all (\<lambda>c. 48 \<le> (of_char c :: nat) \<and> (of_char c :: nat) \<le> 57) k
         \<and> (k = ''0'' \<or> hd k \<noteq> CHR ''0'') \<and> length k \<le> 10 \<and> decimal_value k \<le> 4294967294
      then Some (decimal_value k) else None)"

definition own_properties :: "(string \<times> 'v) list \<Rightarrow> (string \<times> 'v) list" where
  "own_properties obj =
     map snd (sort_key fst
       (concat (map (\<lambda>(k, v). case array_index k of Some i \<Rightarrow> [(i, (k, v))] | None \<Rightarrow> []) obj)))
     @ filter (\<lambda>(k, v). array_index k = None) obj"

definition Object_values :: "(string \<times> 'v) list \<Rightarrow> 'v list" where
  "Object_values obj = map snd (own_properties obj)"

text \<open>The build-time configuration (\<^verbatim>\<open>import.meta.env\<close>).\<close>

record config =
  VITE_API_BASE_URL :: "string option"
  VITE_SENTRY_DSN :: "string option"

definition API_BASE_URL :: "config \<Rightarrow> string" where
  "API_BASE_URL cfg =
     (case VITE_API_BASE_URL cfg of Some url \<Rightarrow> url | None \<Rightarrow> ''http://localhost:3000'')"

definition terminalStatuses :: "DownloadJobStatus list" where
  "terminalStatuses = [completed, failed, cancelled, expired]"

subsection \<open>App.tsx: requestJson\<close>

text \<open>
  One call of \<^verbatim>\<open>requestJson\<close> reads the environment of its fetch, and the identifier and
  time stamp given to the metric and to the error event it may record.
\<close>

record 'a call_env =
  ce_fetch :: "'a fetch_env"
  ce_metric_id :: string
  ce_metric_time :: string
  ce_error_id :: string
  ce_error_time :: string

text \<open>The options that \<^verbatim>\<open>requestJson\<close> passes to \<^verbatim>\<open>instrumentedFetch\<close>.\<close>

definition requestJson_options ::
  "'a call_env \<Rightarrow> request_init \<Rightarrow> string \<Rightarrow> string \<Rightarrow> ('a, app_state) fetch_options" where
  "requestJson_options env init spanName label =
     \<lparr>o_spanName = Some spanName,
      o_onRecord = Some (\<lambda>args st.
        (None,
         st\<lparr>metrics := recordMetric (ce_metric_id env) (ce_metric_time env)
              \<lparr>mi_endpoint = label, mi_method = method_or_GET init,
               mi_duration = oa_duration args,
               mi_status = r_status (oa_response args),
               mi_success = r_ok (oa_response args),
               mi_traceId = oa_traceId args\<rparr>
              (metrics st)\<rparr>)),
      o_ignoreErrors = None\<rparr>"

text \<open>What \<^verbatim>\<open>requestJson\<close> does with the outcome of \<^verbatim>\<open>instrumentedFetch\<close>.\<close>

definition requestJson_after ::
  "config \<Rightarrow> 'a call_env \<Rightarrow> string \<Rightarrow> (thrown + 'a fetch_result) \<times> effects \<times> app_state
     \<Rightarrow> (thrown + 'a) \<times> effects \<times> app_state" where
  "requestJson_after cfg env label = (\<lambda>(outcome, fx, st).
     (case outcome of
        Inl err \<Rightarrow> (Inl err, fx, st)
      | Inr result \<Rightarrow>
          (let response = fr_response result;
               traceId = fr_traceId result;
               st = st\<lparr>lastTraceId := Some traceId\<rparr>
           in if \<not> r_ok response
              then
                (let text = r_text response;
                     fx = captureFrontendError (''Request failed: '' @ label)
                            [(''status'', ExtraNumber (r_status response)),
                             (''body'', ExtraString text),
                             (''traceId'', ExtraString traceId)] fx;
                     st = st\<lparr>errorEvents := recordError (ce_error_id env) (ce_error_time env)
                            \<lparr>ei_message = label @ '' failed ('' @ nat_to_string (r_status response) @ '')'',
                             ei_traceId = Some traceId,
                             ei_context = Some text\<rparr>
                            (errorEvents st)\<rparr>;
                     fx = showFeedbackDialog (VITE_SENTRY_DSN cfg) fx
                 in (Inl (ErrorObj (if text \<noteq> [] then text
                                    else ''Request failed ('' @ nat_to_string (r_status response) @ '')'')),
                     fx, st))
              else
                (case r_json response of
                   Inl err \<Rightarrow> (Inl err, fx, st)
                 | Inr data \<Rightarrow> (Inr data, fx, st)))))"

definition requestJson ::
  "config \<Rightarrow> 'a call_env \<Rightarrow> string \<Rightarrow> request_init \<Rightarrow> string \<Rightarrow> string \<Rightarrow> effects \<times> app_state
     \<Rightarrow> (thrown + 'a) \<times> effects \<times> app_state" where
  "requestJson cfg env path init spanName label = (\<lambda>(fx, st).
     requestJson_after cfg env label
       (instrumentedFetch (ce_fetch env) (API_BASE_URL cfg @ path) init
          (requestJson_options env init spanName label) (fx, st)))"

text \<open>
  The two halves of a call, before and after the \<^verbatim>\<open>await\<close> of \<^verbatim>\<open>fetch\<close>: the first sends
  the request (or throws), the second runs when the request has settled, on the state of
  that moment. \<open>requestJson\<close> is the second run right after the first.
\<close>

definition requestJson_begin ::
  "config \<Rightarrow> 'a call_env \<Rightarrow> string \<Rightarrow> request_init \<Rightarrow> string \<Rightarrow> effects \<Rightarrow> (thrown + span) \<times> effects" where
  "requestJson_begin cfg env path init spanName fx =
     fetch_begin (fe_traceId (ce_fetch env)) (API_BASE_URL cfg @ path) init (Some spanName) fx"

definition requestJson_end ::
  "config \<Rightarrow> 'a call_env \<Rightarrow> request_init \<Rightarrow> string \<Rightarrow> string \<Rightarrow> span \<Rightarrow> effects \<times> app_state
     \<Rightarrow> (thrown + 'a) \<times> effects \<times> app_state" where
  "requestJson_end cfg env init spanName label sp = (\<lambda>(fx, st).
     requestJson_after cfg env label
       (fetch_end (ce_fetch env) (requestJson_options env init spanName label) sp (fx, st)))"

subsection \<open>App.tsx: pollHealth\<close>

text \<open>
  The body of \<^verbatim>\<open>GET /health\<close> as the code reads it: \<^verbatim>\<open>data.status\<close> and
  \<^verbatim>\<open>data.checks.storage\<close>; reading \<^verbatim>\<open>storage\<close> of a missing \<^verbatim>\<open>checks\<close> throws a TypeError.
\<close>

record health_payload =
  hp_status :: health_level
  hp_checks :: "storage_level option"

definition pollHealth ::
  "config \<Rightarrow> health_payload call_env \<Rightarrow> string \<Rightarrow> effects \<times> app_state \<Rightarrow> effects \<times> app_state" where
  "pollHealth cfg env now = (\<lambda>(fx, st).
     (let (outcome, fx, st) = requestJson cfg env ''/health'' no_init ''api.health'' ''health'' (fx, st);
          outcome = (case outcome of
                       Inl err \<Rightarrow> Inl err
                     | Inr data \<Rightarrow>
                         (case hp_checks data of
                            None \<Rightarrow> Inl (ErrorObj ''Cannot read properties of undefined (reading 'storage')'')
                          | Some storage \<Rightarrow> Inr (hp_status data, storage)))
      in case outcome of
           Inr (level, storage) \<Rightarrow>
             (fx, st\<lparr>health := Some \<lparr>hs_status = level, hs_storage = storage, hs_checkedAt = now\<rparr>\<rparr>)
         | Inl err \<Rightarrow>
             (captureFrontendError ''Health check failed'' [(''error'', ExtraThrown err)] fx, st)))"

subsection \<open>App.tsx: handleDownloadInitiation\<close>

record initiate_payload =
  p_jobId :: string
  p_status :: DownloadJobStatus
  p_expiresAt :: string
  p_totalFileIds :: nat

record initiate_env =
  ie_call :: "initiate_payload call_env"
  ie_ui_traceId :: string
  ie_clientRequestId :: string
  ie_createdAt :: string
  ie_lastSyncedAt :: nat
  ie_error_id :: string
  ie_error_time :: string

definition initiate_init :: "initiate_env \<Rightarrow> jsnum list \<Rightarrow> request_init" where
  "initiate_init env ids =
     \<lparr>i_method = Some ''POST'',
      i_headers = [(''Content-Type'', ''application/json'')],
      i_body = Some \<lparr>b_file_ids = ids,
                     b_clientRequestId = ie_clientRequestId env,
                     b_userId = ''observability-demo-user''\<rparr>\<rparr>"

definition new_job :: "initiate_env \<Rightarrow> initiate_payload \<Rightarrow> jsnum list \<Rightarrow> DownloadJob" where
  "new_job env payload ids =
     \<lparr>jobId = p_jobId payload,
      status = p_status payload,
      progressPercent = 0,
      message = ''Queued for processing'',
      attempts = 0,
      downloadUrl = None,
      checksum = None,
      size_bytes = None,
      retryAfterMs = None,
      fileIds = ids,
      priority = standard,
      userId = ''observability-demo-user'',
      createdAt = ie_createdAt env,
      startedAt = None,
      completedAt = None,
      expiresAt = p_expiresAt payload,
      lastSyncedAt = ie_lastSyncedAt env\<rparr>"

text \<open>
  The handler returns a promise that nobody reads: the model returns the effects and the
  state. In the \<^verbatim>\<open>catch\<close> block the argument of \<^verbatim>\<open>recordError\<close> needs the message of \<^verbatim>\<open>err\<close>;
  when computing it throws, \<^verbatim>\<open>recordError\<close> is not called and the \<^verbatim>\<open>finally\<close> block runs.
\<close>

definition handleDownloadInitiation ::
  "config \<Rightarrow> initiate_env \<Rightarrow> jsnum list \<Rightarrow> effects \<times> app_state \<Rightarrow> effects \<times> app_state" where
  "handleDownloadInitiation cfg env ids = (\<lambda>(fx, st).
     if ids = []
     then (fx, st\<lparr>initiateError :=
                   Some ''Please enter at least one file ID between 10,000 and 100,000,000.''\<rparr>)
     else
       (let st = st\<lparr>initiateError := None\<rparr>;
            st = st\<lparr>isSubmitting := True\<rparr>;
            uiSpan = startSpan ''ui.initiate_download'' [] (ie_ui_traceId env);
            (outcome, fx, st) =
              requestJson cfg (ie_call env) ''/v1/download/initiate'' (initiate_init env ids)
                ''api.download.initiate'' ''POST /v1/download/initiate'' (fx, st);
            (fx, st) =
              (case outcome of
                 Inr payload \<Rightarrow>
                   (fx, st\<lparr>jobs := map_set (p_jobId payload) (new_job env payload ids) (jobs st)\<rparr>)
               | Inl err \<Rightarrow>
                   (let fx = captureFrontendError ''Failed to initiate download''
                               [(''error'', ExtraThrown err)] fx
                    in case err_message err of
                         Inl e \<Rightarrow> (fx, st)
                       | Inr msg \<Rightarrow>
                           (fx, st\<lparr>errorEvents := recordError (ie_error_id env) (ie_error_time env)
                                  \<lparr>ei_message = ''Download initiation failed'',
                                   ei_traceId = None,
                                   ei_context = Some msg\<rparr>
                                  (errorEvents st)\<rparr>)));
            fx = fx\<lparr>fx_spans := fx_spans fx @ [span_call End uiSpan]\<rparr>;
            st = st\<lparr>isSubmitting := False\<rparr>
        in (fx, st)))"

subsection \<open>App.tsx: parseFileIds and handleSubmit\<close>

text \<open>The filter \<^verbatim>\<open>Number.isFinite(num) && num >= 10000 && num <= 100000000\<close>.\<close>

fun file_id_ok :: "jsnum \<Rightarrow> bool" where
  "file_id_ok (Finite q) = (10000 \<le> q \<and> q \<le> 100000000)"
| "file_id_ok v = False"

definition parseFileIds :: "js_string \<Rightarrow> jsnum list" where
  "parseFileIds input =
     filter file_id_ok (map (\<lambda>token. Number (trim token)) (split_separators input))"

text \<open>The decimal numerals of a list of identifiers, separated by a comma and a space.\<close>

fun join_ids :: "nat list \<Rightarrow> js_string" where
  "join_ids [] = []"
| "join_ids [n] = str (nat_to_string n)"
| "join_ids (n # m # ns) = str (nat_to_string n) @ str '', '' @ join_ids (m # ns)"

definition handleSubmit ::
  "config \<Rightarrow> initiate_env \<Rightarrow> effects \<times> app_state \<Rightarrow> effects \<times> app_state" where
  "handleSubmit cfg env = (\<lambda>(fx, st).
     handleDownloadInitiation cfg env (parseFileIds (fileIdsInput st)) (fx, st))"

subsection \<open>App.tsx: handleRetry\<close>

definition handleRetry ::
  "config \<Rightarrow> initiate_env \<Rightarrow> DownloadJob \<Rightarrow> effects \<times> app_state \<Rightarrow> effects \<times> app_state" where
  "handleRetry cfg env job = handleDownloadInitiation cfg env (fileIds job)"

subsection \<open>App.tsx: the Download action\<close>

definition handleDownload :: "config \<Rightarrow> DownloadJob \<Rightarrow> effects \<Rightarrow> effects" where
  "handleDownload cfg job fx =
     fx\<lparr>fx_opened := fx_opened fx
          @ [(API_BASE_URL cfg @ ''/v1/download/'' @ jobId job @ ''?format=json'', ''_blank'')]\<rparr>"

text \<open>The buttons in the footer of a job card, in the order of the JSX.\<close>

datatype button = DownloadButton | RetryButton

definition footer_buttons :: "DownloadJob \<Rightarrow> button list" where
  "footer_buttons job =
     (if status job = completed \<and> truthy_string (downloadUrl job) then [DownloadButton] else [])
     @ (if status job = failed then [RetryButton] else [])"

fun onClick ::
  "config \<Rightarrow> initiate_env \<Rightarrow> button \<Rightarrow> DownloadJob \<Rightarrow> effects \<times> app_state \<Rightarrow> effects \<times> app_state" where
  "onClick cfg env DownloadButton job (fx, st) = (handleDownload cfg job fx, st)"
| "onClick cfg env RetryButton job (fx, st) = handleRetry cfg env job (fx, st)"

subsection \<open>App.tsx: status polling\<close>

definition pendingJobIds :: "(string \<times> DownloadJob) list \<Rightarrow> string list" where
  "pendingJobIds js =
     map jobId (filter (\<lambda>job. status job \<notin> set terminalStatuses) (Object_values js))"

record poll_env =
  pe_call :: "DownloadJob call_env"
  pe_now :: nat

text \<open>
  The \<^verbatim>\<open>forEach\<close> callback is asynchronous: it sends the status request of one job id and
  returns at its \<^verbatim>\<open>await\<close>; the rest of it runs when the request has settled, on the state
  of that moment, and nothing cancels it. A request that was sent and has not settled is
  kept with its job id, its span and the environment of the call.
\<close>

record in_flight =
  fl_jobId :: string
  fl_span :: span
  fl_env :: poll_env

text \<open>The callback up to its \<^verbatim>\<open>await\<close>.\<close>

definition poll_send ::
  "config \<Rightarrow> poll_env \<Rightarrow> string \<Rightarrow> effects \<times> in_flight list \<Rightarrow> effects \<times> in_flight list" where
  "poll_send cfg env jid = (\<lambda>(fx, fl).
     (case requestJson_begin cfg (pe_call env) (''/v1/download/status/'' @ jid) no_init
             ''api.download.status'' fx of
        (Inr sp, fx) \<Rightarrow> (fx, fl @ [\<lparr>fl_jobId = jid, fl_span = sp, fl_env = env\<rparr>])
      | (Inl err, fx) \<Rightarrow>
          (captureFrontendError ''Status polling failed''
             [(''jobId'', ExtraString jid), (''error'', ExtraThrown err)] fx, fl)))"

text \<open>
  \<^verbatim>\<open>{...prev[jobId], ...data, lastSyncedAt: Date.now()}\<close>, where \<^verbatim>\<open>prev\<close> is the job map when
  the answer is handled. The body has the declared type \<^verbatim>\<open>DownloadJob\<close>, of which every
  property is required: \<^verbatim>\<open>data\<close> sets each of them, over what \<^verbatim>\<open>prev[jobId]\<close> had (the
  hydration effect stores \<^verbatim>\<open>{...data, lastSyncedAt}\<close> at the same type).
\<close>

definition merge_job :: "DownloadJob option \<Rightarrow> DownloadJob \<Rightarrow> nat \<Rightarrow> DownloadJob" where
  "merge_job prev data now = data\<lparr>lastSyncedAt := now\<rparr>"

text \<open>The callback from its \<^verbatim>\<open>await\<close> on, for a request that has settled.\<close>

definition poll_receive ::
  "config \<Rightarrow> in_flight \<Rightarrow> effects \<times> app_state \<Rightarrow> effects \<times> app_state" where
  "poll_receive cfg r = (\<lambda>(fx, st).
     (case requestJson_end cfg (pe_call (fl_env r)) no_init ''api.download.status''
             (''GET /v1/download/status/'' @ fl_jobId r) (fl_span r) (fx, st) of
        (Inr data, fx, st) \<Rightarrow>
          (fx, st\<lparr>jobs := map_set (fl_jobId r)
                            (merge_job (map_of (jobs st) (fl_jobId r)) data (pe_now (fl_env r)))
                            (jobs st)\<rparr>)
      | (Inl err, fx, st) \<Rightarrow>
          (captureFrontendError ''Status polling failed''
             [(''jobId'', ExtraString (fl_jobId r)), (''error'', ExtraThrown err)] fx, st)))"

text \<open>
  The polling loop as a sequence of events on the effects, the state and the requests in
  flight. A tick of the 5-second interval sends one request for every id of the
  \<^verbatim>\<open>pendingJobIds\<close> of the job map of the last render, each with its own environment; the
  sends of one tick run without interruption. An answer settles one of the requests in
  flight, whichever the network delivers: the one at the given position (no event when
  there is none). The handling of an answer has further \<^verbatim>\<open>await\<close>s (of the body of the
  response); it makes one update of the job map, by a function of the map of that moment,
  and the event stands at the time of that update. When the timer fires is not modelled:
  any sequence of events is a run.
\<close>

definition poll_tick ::
  "config \<Rightarrow> (string \<Rightarrow> poll_env) \<Rightarrow> effects \<times> app_state \<times> in_flight list
     \<Rightarrow> effects \<times> app_state \<times> in_flight list" where
  "poll_tick cfg envs = (\<lambda>(fx, st, fl).
     (let (fx, fl) = fold (\<lambda>jid. poll_send cfg (envs jid) jid) (pendingJobIds (jobs st)) (fx, fl)
      in (fx, st, fl)))"

definition poll_answer ::
  "config \<Rightarrow> nat \<Rightarrow> effects \<times> app_state \<times> in_flight list \<Rightarrow> effects \<times> app_state \<times> in_flight list" where
  "poll_answer cfg i = (\<lambda>(fx, st, fl).
     if i < length fl
     then (let (fx, st) = poll_receive cfg (fl ! i) (fx, st)
           in (fx, st, take i fl @ drop (Suc i) fl))
     else (fx, st, fl))"

datatype poll_event = Tick "string \<Rightarrow> poll_env" | Answer nat

fun poll_step ::
  "config \<Rightarrow> poll_event \<Rightarrow> effects \<times> app_state \<times> in_flight list
     \<Rightarrow> effects \<times> app_state \<times> in_flight list" where
  "poll_step cfg (Tick envs) x = poll_tick cfg envs x"
| "poll_step cfg (Answer i) x = poll_answer cfg i x"

fun poll_run ::
  "config \<Rightarrow> poll_event list \<Rightarrow> effects \<times> app_state \<times> in_flight list
     \<Rightarrow> effects \<times> app_state \<times> in_flight list" where
  "poll_run cfg [] x = x"
| "poll_run cfg (ev # rest) x = poll_run cfg rest (poll_step cfg ev x)"

definition status_request :: "config \<Rightarrow> string \<Rightarrow> http_request" where
  "status_request cfg jid =
     \<lparr>rq_url = API_BASE_URL cfg @ ''/v1/download/status/'' @ jid, rq_init = no_init\<rparr>"

subsection \<open>Reading a span\<close>

text \<open>The status codes set on a span and the exceptions recorded on it, in order.\<close>


definition status_calls :: "span \<Rightarrow> SpanStatusCode list" where
  "status_calls sp = concat (map (\<lambda>c. case c of SetStatus code msg \<Rightarrow> [code] | _ \<Rightarrow> []) (sp_calls sp))"

definition exceptions_recorded :: "span \<Rightarrow> thrown list" where
  "exceptions_recorded sp = concat (map (\<lambda>c. case c of RecordException err \<Rightarrow> [err] | _ \<Rightarrow> []) (sp_calls sp))"


subsection \<open>Reading the job map and the request log\<close>

text \<open>
  The job map as the code builds it: every key once, and every job stored under its own
  \<^verbatim>\<open>jobId\<close>.
\<close>

definition jobs_wf :: "(string \<times> DownloadJob) list \<Rightarrow> bool" where
  "jobs_wf js = (distinct (map fst js) \<and> list_all (\<lambda>(k, job). jobId job = k) js)"

text \<open>Every job of the map with the given \<^verbatim>\<open>jobId\<close> has a terminal status.\<close>

definition all_terminal :: "(string \<times> DownloadJob) list \<Rightarrow> string \<Rightarrow> bool" where
  "all_terminal js jid =
     list_all (\<lambda>job. jobId job = jid \<longrightarrow> status job \<in> set terminalStatuses) (Object_values js)"

text \<open>The calls of \<^verbatim>\<open>fetch\<close> made between two states of the outside world.\<close>

definition requests_since :: "effects \<Rightarrow> effects \<Rightarrow> http_request list" where
  "requests_since fx fx' = drop (length (fx_fetched fx)) (fx_fetched fx')"

text \<open>
  The server answers \<^verbatim>\<open>GET /v1/download/status/:jobId\<close> with a snapshot of that job: a
  parsed body carries the \<^verbatim>\<open>jobId\<close> that was asked for.
\<close>

definition echoes :: "(string \<Rightarrow> poll_env) \<Rightarrow> bool" where
  "echoes envs =
     (\<forall>jid response data.
        fe_outcome (ce_fetch (pe_call (envs jid))) = Resolves response \<and> r_json response = Inr data
        \<longrightarrow> jobId data = jid)"

text \<open>The same of a request in flight, and of every tick of a sequence of events.\<close>

definition echoed :: "in_flight \<Rightarrow> bool" where
  "echoed r =
     (case fe_outcome (ce_fetch (pe_call (fl_env r))) of
        Rejects err \<Rightarrow> True
      | Resolves response \<Rightarrow>
          (case r_json response of Inl err \<Rightarrow> True | Inr data \<Rightarrow> jobId data = fl_jobId r))"

fun ticks_echo :: "poll_event list \<Rightarrow> bool" where
  "ticks_echo [] = True"
| "ticks_echo (Tick envs # evs) = (echoes envs \<and> ticks_echo evs)"
| "ticks_echo (Answer i # evs) = ticks_echo evs"

text \<open>No request for the given job id is in flight.\<close>

definition settled :: "in_flight list \<Rightarrow> string \<Rightarrow> bool" where
  "settled fl jid = (jid \<notin> set (map fl_jobId fl))"


text \<open>Every metric of a list has the method \<^verbatim>\<open>GET\<close> or \<^verbatim>\<open>POST\<close>.\<close>

definition get_or_post :: "request_metric list \<Rightarrow> bool" where
  "get_or_post ms = list_all (\<lambda>m. m_method m = ''GET'' \<or> m_method m = ''POST'') ms"


subsection \<open>Example inputs\<close>

definition example_metrics :: "request_metric list" where
  "example_metrics =
     [\<lparr>m_id = ''1'', m_endpoint = ''health'', m_method = ''GET'', m_duration = 10,
       m_status = 200, m_success = True, m_timestamp = ''t1'', m_traceId = ''x''\<rparr>,
      \<lparr>m_id = ''2'', m_endpoint = ''POST /v1/download/initiate'', m_method = ''POST'',
       m_duration = 7, m_status = 500, m_success = False, m_timestamp = ''t2'',
       m_traceId = ''y''\<rparr>,
      \<lparr>m_id = ''3'', m_endpoint = ''health'', m_method = ''GET'', m_duration = 21,
       m_status = 503, m_success = False, m_timestamp = ''t3'', m_traceId = ''z''\<rparr>]"

definition example_config :: config where
  "example_config = \<lparr>VITE_API_BASE_URL = None, VITE_SENTRY_DSN = None\<rparr>"

definition example_initiate_env :: initiate_env where
  "example_initiate_env =
     \<lparr>ie_call =
        \<lparr>ce_fetch =
           \<lparr>fe_traceId = ''4bf92f3577b34da6a3ce929d0e0e4736'', fe_started = 100, fe_finished = 142,
            fe_outcome = Resolves
              \<lparr>r_status = 202, r_text = [],
               r_json = Inr \<lparr>p_jobId = ''job-1'', p_status = queued,
                             p_expiresAt = ''2025-01-01T01:00:00.000Z'', p_totalFileIds = 1\<rparr>\<rparr>\<rparr>,
         ce_metric_id = ''m-1'', ce_metric_time = ''2025-01-01T00:00:00.042Z'',
         ce_error_id = ''e-1'', ce_error_time = ''2025-01-01T00:00:00.042Z''\<rparr>,
      ie_ui_traceId = ''4bf92f3577b34da6a3ce929d0e0e4736'',
      ie_clientRequestId = ''0b0e7a4c-6a42-4b7e-9a57-2c1f0f5f8a11'',
      ie_createdAt = ''2025-01-01T00:00:00.043Z'',
      ie_lastSyncedAt = 1735689600043,
      ie_error_id = ''e-2'', ie_error_time = ''2025-01-01T00:00:00.043Z''\<rparr>"

definition example_job :: "string \<Rightarrow> DownloadJobStatus \<Rightarrow> DownloadJob" where
  "example_job jid st =
     \<lparr>jobId = jid, status = st, progressPercent = 40, message = ''Processing'',
      attempts = 1, downloadUrl = None, checksum = None, size_bytes = None,
      retryAfterMs = None, fileIds = [Finite 70000], priority = standard,
      userId = ''observability-demo-user'', createdAt = ''2025-01-01T00:00:00.043Z'',
      startedAt = Some ''2025-01-01T00:00:01.000Z'', completedAt = None,
      expiresAt = ''2025-01-01T01:00:00.000Z'', lastSyncedAt = 1735689600043\<rparr>"

definition example_jobs :: "(string \<times> DownloadJob) list" where
  "example_jobs = [(''job-1'', example_job ''job-1'' completed), (''job-2'', example_job ''job-2'' running)]"

text \<open>
  A server that answers every status request with a snapshot of the job asked for, in the
  given status.
\<close>

definition example_answers :: "DownloadJobStatus \<Rightarrow> string \<Rightarrow> poll_env" where
  "example_answers level jid =
     \<lparr>pe_call =
        \<lparr>ce_fetch =
           \<lparr>fe_traceId = ''00f067aa0ba902b7'', fe_started = 0, fe_finished = 12,
            fe_outcome = Resolves
              \<lparr>r_status = 200, r_text = [], r_json = Inr (example_job jid level)\<rparr>\<rparr>,
         ce_metric_id = ''m-2'', ce_metric_time = ''2025-01-01T00:00:05.000Z'',
         ce_error_id = ''e-3'', ce_error_time = ''2025-01-01T00:00:05.000Z''\<rparr>,
      pe_now = 1735689605000\<rparr>"

text \<open>The same with running snapshots.\<close>

definition example_poll_envs :: "string \<Rightarrow> poll_env" where
  "example_poll_envs jid =
     \<lparr>pe_call =
        \<lparr>ce_fetch =
           \<lparr>fe_traceId = ''00f067aa0ba902b7'', fe_started = 0, fe_finished = 12,
            fe_outcome = Resolves
              \<lparr>r_status = 200, r_text = [], r_json = Inr (example_job jid running)\<rparr>\<rparr>,
         ce_metric_id = ''m-2'', ce_metric_time = ''2025-01-01T00:00:05.000Z'',
         ce_error_id = ''e-3'', ce_error_time = ''2025-01-01T00:00:05.000Z''\<rparr>,
      pe_now = 1735689605000\<rparr>"

section \<open>The job engine of the specification\<close>

text \<open>
  The service behind \<^verbatim>\<open>POST /v1/download/initiate\<close> is not among the sources: only the
  dashboard is. The registry, the queue and \<^verbatim>\<open>Initiate\<close> are modelled from sections 3, 4.3,
  4.4 and 4.7 of the specification. Job identifiers are the numbers handed out by the id
  source; the clock is the wall clock of section 4.1, which only moves forward.
\<close>

text \<open>Modelled from the spec: the job record of section 3, with the fields the registry and
  \<^verbatim>\<open>Initiate\<close> read or write.\<close>

record job_record =
  rec_jobId :: nat
  rec_fileIds :: "int list"
  rec_clientRequestId :: "string option"
  rec_userId :: "string option"
  rec_priority :: priority
  rec_status :: DownloadJobStatus
  rec_attempts :: nat
  rec_createdAt :: nat
  rec_expiresAt :: nat

text \<open>Modelled from the spec: the body of \<^verbatim>\<open>Initiate\<close>,
  \<^verbatim>\<open>{file_ids, clientRequestId?, userId?, priority?}\<close>.\<close>

record initiate_request =
  req_fileIds :: "int list"
  req_clientRequestId :: "string option"
  req_userId :: "string option"
  req_priority :: "string option"

text \<open>Modelled from the spec: the result of \<^verbatim>\<open>Initiate\<close>,
  \<^verbatim>\<open>{jobId, status, nextPollInMs, expiresAt, totalFileIds}\<close>, and its two errors.\<close>

record initiate_response =
  ir_jobId :: nat
  ir_status :: DownloadJobStatus
  ir_nextPollInMs :: nat
  ir_expiresAt :: nat
  ir_totalFileIds :: nat

datatype initiate_error = validation | serviceBusy

text \<open>Modelled from the spec: the options \<^verbatim>\<open>jobTtl\<close>, \<^verbatim>\<open>queueCapacity\<close> and \<^verbatim>\<open>maxAttempts\<close> of
  section 6.\<close>

record engine_config =
  jobTtl :: nat
  queueCapacity :: nat
  maxAttempts :: nat

text \<open>Modelled from the spec: the state of the engine: the clock and the id source (4.1), the
  registry with its idempotency index from \<^verbatim>\<open>(userId, clientRequestId)\<close> to a job id (4.3),
  and the queue with its two priority classes (4.4).\<close>

record engine =
  clock :: nat
  next_id :: nat
  registry :: "job_record list"
  idem_index :: "((string option \<times> string) \<times> nat) list"
  queue_standard :: "nat list"
  queue_low :: "nat list"

text \<open>Modelled from the spec: the engine at start, with nothing registered or queued.\<close>

definition initial_engine :: engine where
  "initial_engine =
     \<lparr>clock = 0, next_id = 0, registry = [], idem_index = [], queue_standard = [], queue_low = []\<rparr>"

text \<open>Modelled from the spec: the validation of \<^verbatim>\<open>Initiate\<close> (4.7): \<^verbatim>\<open>fileIds\<close> non-empty and
  each in range, \<^verbatim>\<open>priority\<close> standard or low (standard when absent), \<^verbatim>\<open>clientRequestId\<close> of
  at most 128 characters.\<close>

definition request_priority :: "initiate_request \<Rightarrow> priority option" where
  "request_priority req =
     (case req_priority req of
        None \<Rightarrow> Some standard
      | Some p \<Rightarrow> if p = ''standard'' then Some standard
                  else if p = ''low'' then Some low else None)"

definition valid_request :: "initiate_request \<Rightarrow> bool" where
  "valid_request req =
     (req_fileIds req \<noteq> []
      \<and> list_all (\<lambda>n. 10000 \<le> n \<and> n \<le> 100000000) (req_fileIds req)
      \<and> request_priority req \<noteq> None
      \<and> (case req_clientRequestId req of None \<Rightarrow> True | Some c \<Rightarrow> length c \<le> 128))"

text \<open>Modelled from the spec: the idempotency key of a submission, present when
  \<^verbatim>\<open>clientRequestId\<close> is non-empty (4.3).\<close>

definition idem_key :: "string option \<Rightarrow> string option \<Rightarrow> (string option \<times> string) option" where
  "idem_key user crid =
     (case crid of
        None \<Rightarrow> None
      | Some c \<Rightarrow> if c = [] then None else Some (user, c))"

text \<open>Modelled from the spec: \<^verbatim>\<open>get(jobId)\<close> of the registry, and a record being unexpired:
  the sweeper removes a record when \<^verbatim>\<open>now > expiresAt\<close>.\<close>

definition get_record :: "engine \<Rightarrow> nat \<Rightarrow> job_record option" where
  "get_record eng jid = find (\<lambda>r. rec_jobId r = jid) (registry eng)"

definition unexpired :: "nat \<Rightarrow> job_record \<Rightarrow> bool" where
  "unexpired now r = (now \<le> rec_expiresAt r)"

text \<open>Modelled from the spec: the idempotency lookup of \<^verbatim>\<open>insert\<close> (4.3): the index is
  consulted, and the mapped job is returned if it is still present and unexpired.\<close>

definition existing_job :: "engine \<Rightarrow> (string option \<times> string) option \<Rightarrow> job_record option" where
  "existing_job eng key =
     (case key of
        None \<Rightarrow> None
      | Some k \<Rightarrow>
          (case map_of (idem_index eng) k of
             None \<Rightarrow> None
           | Some jid \<Rightarrow>
               (case get_record eng jid of
                  None \<Rightarrow> None
                | Some r \<Rightarrow> if unexpired (clock eng) r then Some r else None)))"

text \<open>Modelled from the spec: \<^verbatim>\<open>enqueue(jobId, priority)\<close> (4.4): the queue is bounded by
  \<^verbatim>\<open>queueCapacity\<close> over both classes; when full the result is \<^verbatim>\<open>queueFull\<close> (no new state).\<close>

definition enqueue :: "engine_config \<Rightarrow> nat \<Rightarrow> priority \<Rightarrow> engine \<Rightarrow> engine option" where
  "enqueue cfg jid p eng =
     (if queueCapacity cfg \<le> length (queue_standard eng) + length (queue_low eng) then None
      else Some (case p of
                   standard \<Rightarrow> eng\<lparr>queue_standard := queue_standard eng @ [jid]\<rparr>
                 | low \<Rightarrow> eng\<lparr>queue_low := queue_low eng @ [jid]\<rparr>))"

text \<open>Modelled from the spec: the result of \<^verbatim>\<open>Initiate\<close> for a record; \<^verbatim>\<open>nextPollInMs\<close> is the
  default hint 2000.\<close>

definition response_of :: "job_record \<Rightarrow> initiate_response" where
  "response_of r =
     \<lparr>ir_jobId = rec_jobId r, ir_status = rec_status r, ir_nextPollInMs = 2000,
      ir_expiresAt = rec_expiresAt r, ir_totalFileIds = length (rec_fileIds r)\<rparr>"

text \<open>Modelled from the spec: \<^verbatim>\<open>Initiate\<close> (4.7), in the order of the specification: validation;
  the idempotency lookup, which returns the existing job and changes nothing; the creation
  of a record with status queued, \<^verbatim>\<open>createdAt = now\<close> and \<^verbatim>\<open>expiresAt = now + jobTtl\<close>, stored
  in the registry and entered in the index under its key; the enqueue, which gives
  \<^verbatim>\<open>serviceBusy\<close> when the queue is full. The specification does not say that a record
  whose enqueue failed is removed; it stays.\<close>

definition Initiate ::
  "engine_config \<Rightarrow> initiate_request \<Rightarrow> engine \<Rightarrow> (initiate_error + initiate_response) \<times> engine" where
  "Initiate cfg req eng =
     (if \<not> valid_request req then (Inl validation, eng)
      else
        (let key = idem_key (req_userId req) (req_clientRequestId req)
         in case existing_job eng key of
              Some r \<Rightarrow> (Inr (response_of r), eng)
            | None \<Rightarrow>
                (let p = (case request_priority req of Some p \<Rightarrow> p | None \<Rightarrow> standard);
                     r = \<lparr>rec_jobId = next_id eng, rec_fileIds = req_fileIds req,
                          rec_clientRequestId = req_clientRequestId req,
                          rec_userId = req_userId req, rec_priority = p,
                          rec_status = queued, rec_attempts = 0,
                          rec_createdAt = clock eng,
                          rec_expiresAt = clock eng + jobTtl cfg\<rparr>;
                     eng = eng\<lparr>next_id := next_id eng + 1\<rparr>;
                     eng = eng\<lparr>registry := registry eng @ [r]\<rparr>;
                     eng = (case key of
                              None \<Rightarrow> eng
                            | Some k \<Rightarrow> eng\<lparr>idem_index := map_set k (rec_jobId r) (idem_index eng)\<rparr>)
                 in case enqueue cfg (rec_jobId r) p eng of
                      None \<Rightarrow> (Inl serviceBusy, eng)
                    | Some eng' \<Rightarrow> (Inr (response_of r), eng'))))"

text \<open>Modelled from the spec: \<^verbatim>\<open>sweep(now)\<close> (4.3): a record past \<^verbatim>\<open>expiresAt\<close> is removed if
  its status is terminal, and otherwise moved to \<^verbatim>\<open>expired\<close>, to be removed by a later
  sweep; index entries whose job is gone are removed.\<close>

definition sweep_records :: "nat \<Rightarrow> job_record list \<Rightarrow> job_record list" where
  "sweep_records now rs =
     map (\<lambda>r. if unexpired now r then r else r\<lparr>rec_status := expired\<rparr>)
       (filter (\<lambda>r. unexpired now r \<or> rec_status r \<notin> set terminalStatuses) rs)"

definition sweep :: "engine \<Rightarrow> engine" where
  "sweep eng =
     (let rs = sweep_records (clock eng) (registry eng)
      in eng\<lparr>registry := rs,
             idem_index := filter (\<lambda>(k, jid). jid \<in> rec_jobId ` set rs) (idem_index eng)\<rparr>)"

text \<open>Modelled from the spec: the transition guard I8 of section 3.\<close>

fun legal_transition :: "engine_config \<Rightarrow> job_record \<Rightarrow> DownloadJobStatus \<Rightarrow> bool" where
  "legal_transition cfg r to =
     (case rec_status r of
        queued \<Rightarrow> to \<in> {running, cancelled, expired}
      | running \<Rightarrow> to \<in> {processing_artifacts, failed, cancelled, expired}
      | processing_artifacts \<Rightarrow> to \<in> {completed, failed, cancelled, expired}
      | failed \<Rightarrow> to = queued \<and> rec_attempts r < maxAttempts cfg
      | completed \<Rightarrow> False
      | cancelled \<Rightarrow> False
      | expired \<Rightarrow> False)"

text \<open>Modelled from the spec: \<^verbatim>\<open>update(jobId, mutator)\<close> (4.3), as workers and \<^verbatim>\<open>Cancel\<close>
  use it: the mutator sets the status and the attempt count; a mutation that violates I8
  is rejected. The identifier, the idempotency key and \<^verbatim>\<open>expiresAt\<close> (I7) are never
  mutated.\<close>

definition update_record ::
  "engine_config \<Rightarrow> nat \<Rightarrow> DownloadJobStatus \<Rightarrow> nat \<Rightarrow> engine \<Rightarrow> engine" where
  "update_record cfg jid to n eng =
     eng\<lparr>registry :=
           map (\<lambda>r. if rec_jobId r = jid \<and> (to = rec_status r \<or> legal_transition cfg r to)
                     then r\<lparr>rec_status := to, rec_attempts := n\<rparr> else r)
             (registry eng)\<rparr>"

text \<open>Modelled from the spec: \<^verbatim>\<open>dequeue\<close> (4.4): the standard class drains before the low
  class, each in FIFO order.\<close>

definition dequeue :: "engine \<Rightarrow> engine" where
  "dequeue eng =
     (case queue_standard eng of
        jid # rest \<Rightarrow> eng\<lparr>queue_standard := rest\<rparr>
      | [] \<Rightarrow> eng\<lparr>queue_low := tl (queue_low eng)\<rparr>)"

text \<open>Modelled from the spec: what can happen to the engine between two calls, in any
  order: time passes, \<^verbatim>\<open>Initiate\<close> is called, the sweeper runs, a worker dequeues a job,
  a record is updated, a job is enqueued again for a retry.\<close>

datatype engine_op =
    Advance nat
  | CallInitiate initiate_request
  | Sweep
  | Dequeue
  | Update nat DownloadJobStatus nat
  | Requeue nat priority

fun apply_op :: "engine_config \<Rightarrow> engine_op \<Rightarrow> engine \<Rightarrow> engine" where
  "apply_op cfg (Advance n) eng = eng\<lparr>clock := clock eng + n\<rparr>"
| "apply_op cfg (CallInitiate req) eng = snd (Initiate cfg req eng)"
| "apply_op cfg Sweep eng = sweep eng"
| "apply_op cfg Dequeue eng = dequeue eng"
| "apply_op cfg (Update jid to n) eng = update_record cfg jid to n eng"
| "apply_op cfg (Requeue jid p) eng = (case enqueue cfg jid p eng of Some eng' \<Rightarrow> eng' | None \<Rightarrow> eng)"

definition run_engine :: "engine_config \<Rightarrow> engine_op list \<Rightarrow> engine \<Rightarrow> engine" where
  "run_engine cfg ops eng = fold (apply_op cfg) ops eng"

text \<open>The records of the registry that carry a given idempotency key and are unexpired.\<close>

definition active_with_key :: "engine \<Rightarrow> string option \<times> string \<Rightarrow> job_record list" where
  "active_with_key eng k =
     filter (\<lambda>r. idem_key (rec_userId r) (rec_clientRequestId r) = Some k \<and> unexpired (clock eng) r)
       (registry eng)"

text \<open>The idempotency key of a record.\<close>

definition rec_key :: "job_record \<Rightarrow> (string option \<times> string) option" where
  "rec_key r = idem_key (rec_userId r) (rec_clientRequestId r)"

text \<open>
  What every reachable state of the engine satisfies: identifiers are below the next one
  of the id source and occur once; the index has one entry per key; an unexpired record
  with a key is the one the index gives for that key; and the index gives a record for its
  own key only.
\<close>

definition engine_inv :: "engine \<Rightarrow> bool" where
  "engine_inv eng \<longleftrightarrow>
     (\<forall>r\<in>set (registry eng). rec_jobId r < next_id eng)
     \<and> (\<forall>kj\<in>set (idem_index eng). snd kj < next_id eng)
     \<and> distinct (map rec_jobId (registry eng))
     \<and> distinct (map fst (idem_index eng))
     \<and> (\<forall>r\<in>set (registry eng). \<forall>k. rec_key r = Some k \<longrightarrow>
           map_of (idem_index eng) k = Some (rec_jobId r) \<or> \<not> unexpired (clock eng) r)
     \<and> (\<forall>r\<in>set (registry eng). \<forall>k. map_of (idem_index eng) k = Some (rec_jobId r) \<longrightarrow>
           rec_key r = Some k)"

text \<open>The job \<open>j\<close>, expiring at \<open>E\<close>, is the one the index gives for the key \<open>k\<close>.\<close>

definition tracked :: "engine \<Rightarrow> string option \<times> string \<Rightarrow> nat \<Rightarrow> nat \<Rightarrow> bool" where
  "tracked eng k j E \<longleftrightarrow>
     map_of (idem_index eng) k = Some j
     \<and> (\<exists>r\<in>set (registry eng). rec_jobId r = j \<and> rec_key r = Some k \<and> rec_expiresAt r = E)"

subsection \<open>Example inputs of the engine\<close>

definition example_engine_config :: engine_config where
  "example_engine_config = \<lparr>jobTtl = 3600000, queueCapacity = 256, maxAttempts = 3\<rparr>"

definition example_request :: initiate_request where
  "example_request =
     \<lparr>req_fileIds = [70000], req_clientRequestId = Some ''abc'', req_userId = Some ''u1'',
      req_priority = None\<rparr>"

definition example_accepted :: initiate_response where
  "example_accepted =
     \<lparr>ir_jobId = 0, ir_status = queued, ir_nextPollInMs = 2000, ir_expiresAt = 3600000,
      ir_totalFileIds = 1\<rparr>"

text \<open>A submission without \<^verbatim>\<open>clientRequestId\<close>.\<close>

definition example_request_no_key :: initiate_request where
  "example_request_no_key =
     \<lparr>req_fileIds = [70000], req_clientRequestId = None, req_userId = Some ''u1'',
      req_priority = None\<rparr>"

section \<open>Properties\<close>

text \<open>
  C8. After every call to recordMetric the metrics list has at most 30 entries, and after
  every call to recordError the error-event list has at most 20; in both the new entry is
  at the front, followed by the older entries in their previous order (the first 29,
  respectively the first 19, of them).
\<close>

theorem recordMetric_recordError_bounded:
  "length (recordMetric uuid now metric prev) \<le> 30
   \<and> recordMetric uuid now metric prev = mk_metric uuid now metric # take 29 prev
   \<and> length (recordError uuid' now' event prev') \<le> 20
   \<and> recordError uuid' now' event prev' = mk_error_event uuid' now' event # take 19 prev'"
  by (simp add: recordMetric_def recordError_def take_Cons')

subsection \<open>The metrics summary\<close>

lemma map_of_map_set: "map_of (map_set k v kvs) = (map_of kvs)(k \<mapsto> v)"
  by (induction kvs) (auto simp: fun_eq_iff)

lemma fst_set_map_set: "fst ` set (map_set k v kvs) = insert k (fst ` set kvs)"
proof -
  have "fst ` set (map_set k v kvs) = dom (map_of (map_set k v kvs))"
    by (simp add: dom_map_of_conv_image_fst)
  also have "\<dots> = insert k (dom (map_of kvs))"
    by (simp add: map_of_map_set)
  finally show ?thesis by (simp add: dom_map_of_conv_image_fst)
qed

lemma distinct_map_set:
  "distinct (map fst kvs) \<Longrightarrow> distinct (map fst (map_set k v kvs))"
proof (induction kvs)
  case Nil
  then show ?case by simp
next
  case (Cons p kvs)
  obtain k' v' where p: "p = (k', v')" by (cases p)
  show ?case
  proof (cases "k' = k")
    case True
    with Cons.prems p show ?thesis by simp
  next
    case False
    have "k' \<notin> fst ` set (map_set k v kvs)"
      using Cons.prems p False by (simp add: fst_set_map_set)
    with Cons p False show ?thesis by simp
  qed
qed

lemma summary_map_snoc:
  "summary_map (ms @ [metric]) = summary_step metric (summary_map ms)"
  by (simp add: summary_map_def)

lemma distinct_summary_map: "distinct (map fst (summary_map ms))"
proof (induction ms rule: rev_induct)
  case Nil
  then show ?case by (simp add: summary_map_def)
next
  case (snoc metric ms)
  then show ?case
    by (simp add: summary_map_snoc summary_step_def Let_def distinct_map_set)
qed

lemma incremental_mean:
  fixes total d :: rat
  assumes "0 < n"
  shows "total / of_nat n + (d - total / of_nat n) / of_nat (Suc n) = (total + d) / of_nat (Suc n)"
proof -
  define x :: rat where "x = of_nat n"
  have x: "0 < x" using assms by (simp add: x_def)
  have "total / x + (d - total / x) / (x + 1) = (total + d) / (x + 1)"
    using x by (simp add: divide_simps) algebra
  then show ?thesis by (simp add: x_def add.commute)
qed

lemma group_row_snoc:
  assumes "g \<noteq> []"
  shows "group_row (g @ [metric]) =
           (let current = (group_row g)\<lparr>s_count := s_count (group_row g) + 1\<rparr>;
                current = current\<lparr>s_avg := s_avg current
                        + (m_duration metric - s_avg current) / of_nat (s_count current)\<rparr>
            in if m_success metric
               then current\<lparr>s_successCount := s_successCount current + 1\<rparr>
               else current)"
proof -
  have n: "0 < length g" using assms by simp
  have "sum_list (map m_duration g) / of_nat (length g)
          + (m_duration metric - sum_list (map m_duration g) / of_nat (length g))
            / of_nat (Suc (length g))
        = (sum_list (map m_duration g) + m_duration metric) / of_nat (Suc (length g))"
    by (rule incremental_mean [OF n])
  then show ?thesis
    using assms by (simp add: group_row_def Let_def)
qed

lemma group_row_single:
  "group_row [metric] =
     (let current = \<lparr>s_endpoint = m_endpoint metric, s_method = m_method metric,
                     s_avg = 0, s_count = Suc 0, s_successCount = 0\<rparr>;
          current = current\<lparr>s_avg := s_avg current
                        + (m_duration metric - s_avg current) / of_nat (s_count current)\<rparr>
      in if m_success metric
         then current\<lparr>s_successCount := s_successCount current + 1\<rparr>
         else current)"
  by (simp add: group_row_def Let_def)

lemma map_of_summary_map:
  "map_of (summary_map ms) k =
     (if key_group k ms = [] then None else Some (group_row (key_group k ms)))"
proof (induction ms rule: rev_induct)
  case Nil
  then show ?case by (simp add: summary_map_def key_group_def)
next
  case (snoc metric ms)
  show ?case
  proof (cases "metric_key metric = k")
    case False
    then have "key_group k (ms @ [metric]) = key_group k ms"
      by (simp add: key_group_def)
    moreover have "map_of (summary_map (ms @ [metric])) k = map_of (summary_map ms) k"
      using False by (simp add: summary_map_snoc summary_step_def Let_def map_of_map_set)
    ultimately show ?thesis using snoc.IH by simp
  next
    case True
    have g: "key_group k (ms @ [metric]) = key_group k ms @ [metric]"
      using True by (simp add: key_group_def)
    show ?thesis
    proof (cases "key_group k ms = []")
      case True
      then have "map_of (summary_map ms) (metric_key metric) = None"
        using snoc.IH \<open>metric_key metric = k\<close> by simp
      then have "map_of (summary_map (ms @ [metric])) k = Some (group_row [metric])"
        using \<open>metric_key metric = k\<close>
        by (simp add: summary_map_snoc summary_step_def map_of_map_set group_row_single Let_def)
      then show ?thesis using g True by simp
    next
      case False
      then have "map_of (summary_map ms) (metric_key metric)
                   = Some (group_row (key_group k ms))"
        using snoc.IH \<open>metric_key metric = k\<close> by simp
      then have "map_of (summary_map (ms @ [metric])) k
                   = Some (group_row (key_group k ms @ [metric]))"
        using \<open>metric_key metric = k\<close>
        by (simp add: summary_map_snoc summary_step_def map_of_map_set
            group_row_snoc [OF False] Let_def)
      then show ?thesis using g by simp
    qed
  qed
qed

lemma metricsSummary_rows:
  "row \<in> set (metricsSummary ms) \<longleftrightarrow>
     (\<exists>k. key_group k ms \<noteq> [] \<and> row = group_row (key_group k ms))"
proof -
  have "row \<in> set (metricsSummary ms) \<longleftrightarrow> (\<exists>k. (k, row) \<in> set (summary_map ms))"
    by (force simp: metricsSummary_def)
  also have "\<dots> \<longleftrightarrow> (\<exists>k. map_of (summary_map ms) k = Some row)"
    using distinct_summary_map [of ms] by (auto dest: map_of_SomeD)
  also have "\<dots> \<longleftrightarrow> (\<exists>k. key_group k ms \<noteq> [] \<and> row = group_row (key_group k ms))"
    by (auto simp: map_of_summary_map)
  finally show ?thesis .
qed

lemma key_split_unique:
  assumes "CHR '' '' \<notin> set a" and "CHR '' '' \<notin> set a'"
    and "a @ '' '' @ b = a' @ '' '' @ b'"
  shows "a = a' \<and> b = b'"
  using assms
proof (induction a arbitrary: a')
  case Nil
  then show ?case by (cases a') auto
next
  case (Cons x a)
  then show ?case by (cases a') auto
qed


lemma first_seen_snoc:
  "first_seen (xs @ [x]) = (if x \<in> set xs then first_seen xs else first_seen xs @ [x])"
  by (simp add: first_seen_def)

lemma set_first_seen: "set (first_seen xs) = set xs"
  by (simp add: first_seen_def)

lemma distinct_first_seen: "distinct (first_seen xs)"
  by (simp add: first_seen_def)

lemma first_seen_map:
  "inj_on f (set xs) \<Longrightarrow> first_seen (map f xs) = map f (first_seen xs)"
proof (induction xs rule: rev_induct)
  case Nil
  then show ?case by (simp add: first_seen_def)
next
  case (snoc x xs)
  have inj: "inj_on f (set xs)"
    using snoc.prems by (auto simp: inj_on_def)
  have "f x \<in> f ` set xs \<longleftrightarrow> x \<in> set xs"
    using snoc.prems by (auto simp: inj_on_def)
  then show ?case
    using snoc.IH [OF inj] by (simp add: first_seen_snoc)
qed

lemma map_fst_map_set:
  "map fst (map_set k v kvs)
     = (if k \<in> fst ` set kvs then map fst kvs else map fst kvs @ [k])"
  by (induction kvs) (fastforce simp: image_iff)+

lemma keys_summary_map: "map fst (summary_map ms) = first_seen (map metric_key ms)"
proof (induction ms rule: rev_induct)
  case Nil
  then show ?case by (simp add: summary_map_def first_seen_def)
next
  case (snoc metric ms)
  have "fst ` set (summary_map ms) = set (map fst (summary_map ms))"
    by simp
  also have "\<dots> = metric_key ` set ms"
    unfolding snoc.IH by (simp add: set_first_seen)
  finally have "metric_key metric \<in> fst ` set (summary_map ms)
                  \<longleftrightarrow> metric_key metric \<in> set (map metric_key ms)"
    by simp
  then show ?case
    using snoc.IH
    by (simp add: summary_map_snoc summary_step_def Let_def map_fst_map_set first_seen_snoc)
qed

lemma alist_by_keys:
  "distinct (map fst kvs) \<Longrightarrow> kvs = map (\<lambda>k. (k, the (map_of kvs k))) (map fst kvs)"
proof (induction kvs)
  case Nil
  then show ?case by simp
next
  case (Cons p kvs)
  obtain k v where p: "p = (k, v)" by (cases p)
  have d: "distinct (map fst kvs)" and k: "k \<notin> fst ` set kvs"
    using Cons.prems p by simp_all
  have "map (\<lambda>k'. (k', the (map_of (p # kvs) k'))) (map fst kvs)
          = map (\<lambda>k'. (k', the (map_of kvs k'))) (map fst kvs)"
    using k p by (intro map_cong) auto
  also have "\<dots> = kvs"
    by (rule Cons.IH [OF d, symmetric])
  finally have rest: "map (\<lambda>k'. (k', the (map_of (p # kvs) k'))) (map fst kvs) = kvs" .
  have "map (\<lambda>k'. (k', the (map_of (p # kvs) k'))) (map fst (p # kvs))
          = (k, the (map_of (p # kvs) k))
            # map (\<lambda>k'. (k', the (map_of (p # kvs) k'))) (map fst kvs)"
    by (simp add: p)
  also have "\<dots> = p # kvs"
    unfolding rest by (simp add: p)
  finally show ?case by (rule sym)
qed

text \<open>
  The summary map in full: one entry for every key that occurs, in the order in which the
  keys first occur, with the row of the metrics of that key.
\<close>

lemma summary_map_eq:
  "summary_map ms
     = map (\<lambda>k. (k, group_row (key_group k ms))) (first_seen (map metric_key ms))"
proof -
  have "summary_map ms
          = map (\<lambda>k. (k, the (map_of (summary_map ms) k))) (map fst (summary_map ms))"
    by (rule alist_by_keys [OF distinct_summary_map])
  also have "\<dots> = map (\<lambda>k. (k, the (map_of (summary_map ms) k))) (first_seen (map metric_key ms))"
    by (simp add: keys_summary_map)
  also have "\<dots> = map (\<lambda>k. (k, group_row (key_group k ms))) (first_seen (map metric_key ms))"
  proof (rule map_cong [OF refl])
    fix k
    assume "k \<in> set (first_seen (map metric_key ms))"
    then obtain m where "m \<in> set ms" "metric_key m = k"
      by (auto simp: set_first_seen)
    then have "key_group k ms \<noteq> []"
      by (auto simp: key_group_def filter_empty_conv)
    then show "(k, the (map_of (summary_map ms) k)) = (k, group_row (key_group k ms))"
      by (simp add: map_of_summary_map)
  qed
  finally show ?thesis .
qed

text \<open>
  The code groups by the string \<^verbatim>\<open>`${method} ${endpoint}`\<close>, and the string determines the
  pair only when the method has no space: the two metrics below (method \<^verbatim>\<open>A B\<close> with
  endpoint \<^verbatim>\<open>C\<close>, method \<^verbatim>\<open>A\<close> with endpoint \<^verbatim>\<open>B C\<close>) would be summarised in one row. The
  dashboard records no such metric: the method it records is that of the request,
  \<^verbatim>\<open>GET\<close> or \<^verbatim>\<open>POST\<close> (see \<open>recorded_methods\<close> below).
\<close>

lemma metricsSummary_key_collision:
  "metricsSummary
     [\<lparr>m_id = ''1'', m_endpoint = ''C'', m_method = ''A B'', m_duration = 10, m_status = 200,
       m_success = True, m_timestamp = ''t1'', m_traceId = ''x''\<rparr>,
      \<lparr>m_id = ''2'', m_endpoint = ''B C'', m_method = ''A'', m_duration = 20, m_status = 200,
       m_success = True, m_timestamp = ''t2'', m_traceId = ''y''\<rparr>]
   = [\<lparr>s_endpoint = ''C'', s_method = ''A B'', s_avg = 15, s_count = 2, s_successCount = 2\<rparr>]"
  by (simp add: metricsSummary_def summary_map_def summary_step_def metric_key_def)

lemma pair_group_key_group:
  assumes nospace: "\<forall>m\<in>set ms. CHR '' '' \<notin> set (m_method m)"
    and m: "m \<in> set ms"
  shows "key_group (metric_key m) ms = pair_group (m_method m) (m_endpoint m) ms"
proof -
  have "metric_key m' = metric_key m \<longleftrightarrow> m_method m' = m_method m \<and> m_endpoint m' = m_endpoint m"
    if "m' \<in> set ms" for m'
  proof
    assume "metric_key m' = metric_key m"
    then have "m_method m' @ '' '' @ m_endpoint m' = m_method m @ '' '' @ m_endpoint m"
      by (simp add: metric_key_def)
    moreover have "CHR '' '' \<notin> set (m_method m')" "CHR '' '' \<notin> set (m_method m)"
      using nospace that m by auto
    ultimately show "m_method m' = m_method m \<and> m_endpoint m' = m_endpoint m"
      by (rule key_split_unique [rotated 2])
  next
    assume "m_method m' = m_method m \<and> m_endpoint m' = m_endpoint m"
    then show "metric_key m' = metric_key m"
      by (simp add: metric_key_def)
  qed
  then show ?thesis
    unfolding pair_group_def key_group_def by (intro filter_cong) auto
qed

lemma metricsSummary_eq:
  assumes nospace: "\<forall>m\<in>set ms. CHR '' '' \<notin> set (m_method m)"
  shows "metricsSummary ms
     = map (\<lambda>(method, endpoint). group_row (pair_group method endpoint ms))
         (first_seen (map (\<lambda>m. (m_method m, m_endpoint m)) ms))"
proof -
  let ?pair = "\<lambda>m. (m_method m, m_endpoint m)"
  let ?key = "\<lambda>(method, endpoint). method @ '' '' @ endpoint"
  have inj: "inj_on ?key (set (map ?pair ms))"
  proof (rule inj_onI)
    fix p q
    assume p: "p \<in> set (map ?pair ms)" and q: "q \<in> set (map ?pair ms)" and eq: "?key p = ?key q"
    obtain a b where pa: "p = (a, b)" by (cases p)
    obtain c d where qc: "q = (c, d)" by (cases q)
    have "CHR '' '' \<notin> set a" "CHR '' '' \<notin> set c"
      using p q pa qc nospace by auto
    moreover have "a @ '' '' @ b = c @ '' '' @ d"
      using eq pa qc by simp
    ultimately have "a = c \<and> b = d"
      by (rule key_split_unique)
    then show "p = q" using pa qc by simp
  qed
  have keys: "map metric_key ms = map ?key (map ?pair ms)"
    by (simp add: metric_key_def)
  have "metricsSummary ms
          = map (\<lambda>k. group_row (key_group k ms)) (first_seen (map metric_key ms))"
    by (simp add: metricsSummary_def summary_map_eq comp_def)
  also have "\<dots> = map (\<lambda>k. group_row (key_group k ms)) (map ?key (first_seen (map ?pair ms)))"
    unfolding keys by (simp only: first_seen_map [OF inj])
  also have "\<dots> = map (\<lambda>p. group_row (key_group (?key p) ms)) (first_seen (map ?pair ms))"
    by (simp add: comp_def)
  also have "\<dots> = map (\<lambda>(method, endpoint). group_row (pair_group method endpoint ms))
                     (first_seen (map ?pair ms))"
  proof (rule map_cong [OF refl])
    fix p
    assume "p \<in> set (first_seen (map ?pair ms))"
    then obtain m where m: "m \<in> set ms" "p = ?pair m"
      by (auto simp: set_first_seen)
    have "key_group (?key p) ms = pair_group (m_method m) (m_endpoint m) ms"
      using pair_group_key_group [OF nospace m(1)] m(2) by (simp add: metric_key_def)
    then show "group_row (key_group (?key p) ms)
                 = (case p of (method, endpoint) \<Rightarrow> group_row (pair_group method endpoint ms))"
      using m(2) by simp
  qed
  finally show ?thesis .
qed

lemma pair_group_hd:
  assumes "m \<in> set ms"
  shows "pair_group (m_method m) (m_endpoint m) ms \<noteq> []"
    and "m_method (hd (pair_group (m_method m) (m_endpoint m) ms)) = m_method m"
    and "m_endpoint (hd (pair_group (m_method m) (m_endpoint m) ms)) = m_endpoint m"
proof -
  show ne: "pair_group (m_method m) (m_endpoint m) ms \<noteq> []"
    using assms by (auto simp: pair_group_def filter_empty_conv)
  then have "hd (pair_group (m_method m) (m_endpoint m) ms)
               \<in> set (pair_group (m_method m) (m_endpoint m) ms)"
    by simp
  then show "m_method (hd (pair_group (m_method m) (m_endpoint m) ms)) = m_method m"
    and "m_endpoint (hd (pair_group (m_method m) (m_endpoint m) ms)) = m_endpoint m"
    by (simp_all add: pair_group_def)
qed

text \<open>
  C9. For every metrics list in which no method contains a space (the methods that the
  dashboard records are \<^verbatim>\<open>GET\<close> and \<^verbatim>\<open>POST\<close>), metricsSummary has exactly one row for
  every (method, endpoint) group of the list, in the order in which the groups first occur.
  Each row carries the method and endpoint of its group; its count is the number of metrics
  in the group, its successCount the number of successful metrics in the group, and its
  incrementally updated avg is, in exact arithmetic, the arithmetic mean of the group's
  durations.
\<close>

theorem metricsSummary_groups:
  assumes nospace: "\<forall>m\<in>set ms. CHR '' '' \<notin> set (m_method m)"
  shows "map (\<lambda>row. (s_method row, s_endpoint row)) (metricsSummary ms)
           = first_seen (map (\<lambda>m. (m_method m, m_endpoint m)) ms)
     \<and> distinct (map (\<lambda>row. (s_method row, s_endpoint row)) (metricsSummary ms))
     \<and> (\<lambda>row. (s_method row, s_endpoint row)) ` set (metricsSummary ms)
         = (\<lambda>m. (m_method m, m_endpoint m)) ` set ms
     \<and> (\<forall>row\<in>set (metricsSummary ms).
          pair_group (s_method row) (s_endpoint row) ms \<noteq> []
          \<and> s_count row = length (pair_group (s_method row) (s_endpoint row) ms)
          \<and> s_successCount row
              = length (filter m_success (pair_group (s_method row) (s_endpoint row) ms))
          \<and> s_avg row
              = sum_list (map m_duration (pair_group (s_method row) (s_endpoint row) ms))
                / of_nat (length (pair_group (s_method row) (s_endpoint row) ms)))
     \<and> metricsSummary ms
         = map (\<lambda>(method, endpoint).
                  \<lparr>s_endpoint = endpoint, s_method = method,
                   s_avg = sum_list (map m_duration (pair_group method endpoint ms))
                           / of_nat (length (pair_group method endpoint ms)),
                   s_count = length (pair_group method endpoint ms),
                   s_successCount = length (filter m_success (pair_group method endpoint ms))\<rparr>)
             (first_seen (map (\<lambda>m. (m_method m, m_endpoint m)) ms))"
proof -
  let ?pair = "\<lambda>m. (m_method m, m_endpoint m)"
  let ?groups = "first_seen (map ?pair ms)"
  let ?row = "\<lambda>(method, endpoint).
                  \<lparr>s_endpoint = endpoint, s_method = method,
                   s_avg = sum_list (map m_duration (pair_group method endpoint ms))
                           / of_nat (length (pair_group method endpoint ms)),
                   s_count = length (pair_group method endpoint ms),
                   s_successCount = length (filter m_success (pair_group method endpoint ms))\<rparr>"
  have "map (\<lambda>(method, endpoint). group_row (pair_group method endpoint ms)) ?groups
          = map ?row ?groups"
  proof (rule map_cong [OF refl])
    fix p
    assume "p \<in> set ?groups"
    then obtain m where m: "m \<in> set ms" "p = ?pair m"
      by (auto simp: set_first_seen)
    show "(case p of (method, endpoint) \<Rightarrow> group_row (pair_group method endpoint ms)) = ?row p"
      using pair_group_hd [OF m(1)] m(2) by (simp add: group_row_def)
  qed
  then have eq: "metricsSummary ms = map ?row ?groups"
    using metricsSummary_eq [OF nospace] by simp
  have pairs: "map (\<lambda>row. (s_method row, s_endpoint row)) (metricsSummary ms) = ?groups"
    unfolding eq by (simp add: comp_def case_prod_beta)
  have rows: "pair_group (s_method row) (s_endpoint row) ms \<noteq> []
          \<and> s_count row = length (pair_group (s_method row) (s_endpoint row) ms)
          \<and> s_successCount row
              = length (filter m_success (pair_group (s_method row) (s_endpoint row) ms))
          \<and> s_avg row
              = sum_list (map m_duration (pair_group (s_method row) (s_endpoint row) ms))
                / of_nat (length (pair_group (s_method row) (s_endpoint row) ms))"
    if "row \<in> set (metricsSummary ms)" for row
  proof -
    from that obtain p where p: "p \<in> set ?groups" "row = ?row p"
      unfolding eq by auto
    then obtain m where m: "m \<in> set ms" "p = ?pair m"
      by (auto simp: set_first_seen)
    show ?thesis
      using pair_group_hd(1) [OF m(1)] p(2) m(2) by simp
  qed
  have "set (map (\<lambda>row. (s_method row, s_endpoint row)) (metricsSummary ms)) = set (map ?pair ms)"
    unfolding pairs by (rule set_first_seen)
  then have img: "(\<lambda>row. (s_method row, s_endpoint row)) ` set (metricsSummary ms) = ?pair ` set ms"
    by simp
  have "distinct (map (\<lambda>row. (s_method row, s_endpoint row)) (metricsSummary ms))"
    unfolding pairs by (rule distinct_first_seen)
  with pairs img rows eq show ?thesis
    by blast
qed

theorem metricsSummary_groups_witness:
  "CHR '' '' \<notin> set ''GET'' \<and> CHR '' '' \<notin> set ''POST''
   \<and> metricsSummary example_metrics
      = [\<lparr>s_endpoint = ''health'', s_method = ''GET'', s_avg = 31 / 2, s_count = 2,
          s_successCount = 1\<rparr>,
         \<lparr>s_endpoint = ''POST /v1/download/initiate'', s_method = ''POST'', s_avg = 7,
          s_count = 1, s_successCount = 0\<rparr>]
   \<and> map m_id (pair_group ''GET'' ''health'' example_metrics) = [''1'', ''3'']
   \<and> map m_id (pair_group ''POST'' ''POST /v1/download/initiate'' example_metrics) = [''2'']"
proof -
  have "\<forall>m\<in>set example_metrics. CHR '' '' \<notin> set (m_method m)"
    by (simp add: example_metrics_def)
  from metricsSummary_groups [OF this]
  have "metricsSummary example_metrics
         = map (\<lambda>(method, endpoint).
                  \<lparr>s_endpoint = endpoint, s_method = method,
                   s_avg = sum_list (map m_duration (pair_group method endpoint example_metrics))
                           / of_nat (length (pair_group method endpoint example_metrics)),
                   s_count = length (pair_group method endpoint example_metrics),
                   s_successCount =
                     length (filter m_success (pair_group method endpoint example_metrics))\<rparr>)
             (first_seen (map (\<lambda>m. (m_method m, m_endpoint m)) example_metrics))"
    by (rule conjunct2 [THEN conjunct2, THEN conjunct2, THEN conjunct2])
  also have "\<dots> = [\<lparr>s_endpoint = ''health'', s_method = ''GET'', s_avg = 31 / 2, s_count = 2,
          s_successCount = 1\<rparr>,
         \<lparr>s_endpoint = ''POST /v1/download/initiate'', s_method = ''POST'', s_avg = 7,
          s_count = 1, s_successCount = 0\<rparr>]"
    by (simp add: example_metrics_def first_seen_def pair_group_def)
  finally show ?thesis
    by (simp add: example_metrics_def pair_group_def)
qed
subsection \<open>instrumentedFetch\<close>

lemmas if_defs = instrumentedFetch_def fetch_begin_def fetch_end_def fetch_try_def fetch_catch_def
  span_call_def startSpan_def status_calls_def exceptions_recorded_def

lemma has_message_iff: "has_message err \<longleftrightarrow> (\<exists>msg. err_message err = Inr msg)"
  by (cases "err_message err") (simp_all add: has_message_def)

lemma headers_accepted_Nil: "headers_accepted []"
  by (simp add: headers_accepted_def)

lemma headers_accepted_no_init: "headers_accepted (i_headers no_init)"
  by (simp add: headers_accepted_def no_init_def)

lemma headers_accepted_json: "headers_accepted [(''Content-Type'', ''application/json'')]"
  by (simp add: headers_accepted_def header_name_ok_def header_value_ok_def is_tchar_def
      is_http_whitespace_def normalize_value_def)

text \<open>
  The headers are built between \<^verbatim>\<open>startSpan\<close> and the \<^verbatim>\<open>try\<close> statement. With a header name
  that is not a token the constructor throws: the call throws, \<^verbatim>\<open>fetch\<close> is not called,
  nothing is recorded or reported, and the span that was started is never ended.
\<close>

lemma instrumentedFetch_invalid_header:
  "(case instrumentedFetch
      \<lparr>fe_traceId = ''t'', fe_started = 0, fe_finished = 5,
       fe_outcome = Resolves \<lparr>r_status = 200, r_text = ''{}'', r_json = Inr ()\<rparr>\<rparr>
      ''http://localhost:3000/health''
      \<lparr>i_method = None, i_headers = [(''X Trace'', ''1'')], i_body = None\<rparr>
      \<lparr>o_spanName = None, o_onRecord = None, o_ignoreErrors = None\<rparr>
      (no_effects, ())
    of (outcome, fx, s) \<Rightarrow>
      outcome = Inl invalid_header \<and> fx_fetched fx = [] \<and> fx_sentry fx = []
      \<and> map sp_name (fx_spans fx) = [''fetch:GET'']
      \<and> count_list (sp_calls (last (fx_spans fx))) End = 0)"
  by (simp add: if_defs no_effects_def method_or_GET_def headers_accepted_def header_name_ok_def
      is_tchar_def)

text \<open>
  In the \<^verbatim>\<open>catch\<close> block the message passed to \<^verbatim>\<open>setStatus\<close> is computed from the caught
  value. When the fetch rejects with a value whose conversion to a string throws, the block
  is left there: the exception is recorded on the span, the status is not set, Sentry is
  not called, and the call throws what the conversion threw instead of the caught value.
  The span is ended.
\<close>

lemma instrumentedFetch_unconvertible:
  "(case instrumentedFetch
      \<lparr>fe_traceId = ''t'', fe_started = 0, fe_finished = 5,
       fe_outcome = (Rejects (Unconvertible (ErrorObj ''Cannot convert object to primitive value''))
                       :: unit fetch_outcome)\<rparr>
      ''http://localhost:3000/health'' no_init
      \<lparr>o_spanName = None, o_onRecord = None, o_ignoreErrors = None\<rparr>
      (no_effects, ())
    of (outcome, fx, s) \<Rightarrow>
      outcome = Inl (ErrorObj ''Cannot convert object to primitive value'')
      \<and> exceptions_recorded (last (fx_spans fx))
          = [Unconvertible (ErrorObj ''Cannot convert object to primitive value'')]
      \<and> status_calls (last (fx_spans fx)) = [] \<and> fx_sentry fx = []
      \<and> count_list (sp_calls (last (fx_spans fx))) End = 1)"
  by (simp add: if_defs no_effects_def no_init_def method_or_GET_def headers_accepted_def)

text \<open>
  C10, as stated, has the span status set to ERROR only if the fetch threw or the response
  was not ok. The \<^verbatim>\<open>catch\<close> block also catches what the \<^verbatim>\<open>onRecord\<close> callback throws:
  here the fetch resolves with status 200 and the callback throws; the status is set to OK
  and then to ERROR, and the call throws.
\<close>

theorem instrumentedFetch_callback_throws_counterexample:
  "(case instrumentedFetch
      \<lparr>fe_traceId = ''t'', fe_started = 0, fe_finished = 5,
       fe_outcome = Resolves \<lparr>r_status = 200, r_text = ''{}'', r_json = Inr ()\<rparr>\<rparr>
      ''http://localhost:3000/health'' no_init
      \<lparr>o_spanName = None, o_onRecord = Some (\<lambda>args s. (Some (ErrorObj ''boom''), s)),
       o_ignoreErrors = None\<rparr>
      (no_effects, ())
    of (outcome, fx, s) \<Rightarrow>
      outcome = Inl (ErrorObj ''boom'') \<and> status_calls (last (fx_spans fx)) = [OK, ERROR])"
  by (simp add: if_defs no_effects_def no_init_def r_ok_def method_or_GET_def headers_accepted_def)

text \<open>
  C10 (amended). On every call to instrumentedFetch whose headers the Headers constructor
  accepts, and in which whatever the fetch or the onRecord callback throws is an Error or
  converts to a string, one span is created, \<^verbatim>\<open>fetch\<close> is called once, and the span is ended
  exactly once, as its last call. The span status is set to ERROR if and only if the call
  throws or the response was not ok while ignoreErrors is not true, and to OK if and only if
  the fetch resolved with an ok response or with ignoreErrors true. When the call throws,
  the thrown value is recorded on the span, reported to Sentry and thrown to the caller;
  when the fetch throws, the call throws that same value. When the call returns, nothing is
  recorded or reported and the result carries the response of the fetch.
\<close>

theorem instrumentedFetch_span:
  fixes env :: "'a fetch_env" and options :: "('a, 's) fetch_options"
    and input :: string and init :: request_init and fx :: effects and s :: 's
  defines "run \<equiv> instrumentedFetch env input init options (fx, s)"
  defines "outcome \<equiv> fst run" and "fx' \<equiv> fst (snd run)"
  defines "sp \<equiv> last (fx_spans fx')"
  assumes headers: "headers_accepted (i_headers init)"
    and fetch_message: "\<And>err. fe_outcome env = Rejects err \<Longrightarrow> has_message err"
    and callback_message:
      "\<And>callback args s0 err s1.
         o_onRecord options = Some callback \<Longrightarrow> callback args s0 = (Some err, s1) \<Longrightarrow> has_message err"
  shows "fx_spans fx' = fx_spans fx @ [sp]
    \<and> fx_fetched fx' = fx_fetched fx @ [\<lparr>rq_url = input, rq_init = init\<rparr>]
    \<and> count_list (sp_calls sp) End = 1 \<and> last (sp_calls sp) = End
    \<and> (ERROR \<in> set (status_calls sp) \<longleftrightarrow>
         isl outcome
         \<or> (case fe_outcome env of
               Resolves response \<Rightarrow> \<not> r_ok response \<and> \<not> truthy_bool (o_ignoreErrors options)
             | Rejects err \<Rightarrow> False))
    \<and> (OK \<in> set (status_calls sp) \<longleftrightarrow>
         (case fe_outcome env of
            Resolves response \<Rightarrow> r_ok response \<or> truthy_bool (o_ignoreErrors options)
          | Rejects err \<Rightarrow> False))
    \<and> (case outcome of
          Inl err \<Rightarrow> exceptions_recorded sp = [err]
                     \<and> fx_sentry fx' = fx_sentry fx @ [CaptureException err]
        | Inr result \<Rightarrow> exceptions_recorded sp = [] \<and> fx_sentry fx' = fx_sentry fx
                     \<and> fe_outcome env = Resolves (fr_response result))
    \<and> (case fe_outcome env of
          Rejects err \<Rightarrow> outcome = Inl err
        | Resolves response \<Rightarrow> True)"
proof (cases "fe_outcome env")
  case (Rejects err)
  then obtain msg where "err_message err = Inr msg"
    using fetch_message has_message_iff by blast
  with Rejects headers show ?thesis
    unfolding sp_def fx'_def outcome_def run_def
    by (simp add: if_defs)
next
  case (Resolves response)
  show ?thesis
  proof (cases "o_onRecord options")
    case None
    with Resolves headers show ?thesis
      unfolding sp_def fx'_def outcome_def run_def
      by (simp add: if_defs Let_def)
  next
    case (Some callback)
    obtain thrown s' where cb: "callback \<lparr>oa_traceId = fe_traceId env,
        oa_duration = fe_finished env - fe_started env, oa_response = response\<rparr> s = (thrown, s')"
      by (cases "callback \<lparr>oa_traceId = fe_traceId env,
        oa_duration = fe_finished env - fe_started env, oa_response = response\<rparr> s")
    show ?thesis
    proof (cases thrown)
      case None
      with Resolves Some cb headers show ?thesis
        unfolding sp_def fx'_def outcome_def run_def
        by (simp add: if_defs Let_def)
    next
      case (Some err)
      then have "has_message err"
        using callback_message [OF \<open>o_onRecord options = Some callback\<close>] cb by blast
      then obtain msg where "err_message err = Inr msg"
        using has_message_iff by blast
      with Resolves \<open>o_onRecord options = Some callback\<close> cb Some headers show ?thesis
        unfolding sp_def fx'_def outcome_def run_def
        by (simp add: if_defs Let_def)
    qed
  qed
qed

theorem instrumentedFetch_span_witness:
  "headers_accepted (i_headers no_init)
   \<and> has_message (ErrorObj ''Failed to fetch'')
   \<and> (case instrumentedFetch
        \<lparr>fe_traceId = ''t'', fe_started = 0, fe_finished = 5,
         fe_outcome = (Rejects (ErrorObj ''Failed to fetch'') :: unit fetch_outcome)\<rparr>
        ''http://localhost:3000/health'' no_init
        \<lparr>o_spanName = None, o_onRecord = None, o_ignoreErrors = None\<rparr>
        (no_effects, ())
      of (outcome, fx, s) \<Rightarrow>
        outcome = Inl (ErrorObj ''Failed to fetch'')
        \<and> length (fx_spans fx) = 1
        \<and> sp_calls (last (fx_spans fx))
            = [RecordException (ErrorObj ''Failed to fetch''),
               SetStatus ERROR (Some ''Failed to fetch''), End]
        \<and> fx_sentry fx = [CaptureException (ErrorObj ''Failed to fetch'')])"
  using instrumentedFetch_span
    [where env = "\<lparr>fe_traceId = ''t'', fe_started = 0, fe_finished = 5,
         fe_outcome = (Rejects (ErrorObj ''Failed to fetch'') :: unit fetch_outcome)\<rparr>"
       and input = "''http://localhost:3000/health''" and init = no_init
       and options = "\<lparr>o_spanName = None, o_onRecord = None, o_ignoreErrors = None\<rparr>"
       and fx = no_effects and s = "()"]
  by (simp add: if_defs no_effects_def no_init_def method_or_GET_def headers_accepted_def
      has_message_def)
subsection \<open>requestJson and the handlers\<close>

lemmas rq_defs = requestJson_def requestJson_after_def requestJson_options_def
  requestJson_begin_def requestJson_end_def

lemma requestJson_split:
  "requestJson cfg env path init spanName label (fx, st)
     = (case requestJson_begin cfg env path init spanName fx of
          (Inl err, fx') \<Rightarrow> (Inl err, fx', st)
        | (Inr sp, fx') \<Rightarrow> requestJson_end cfg env init spanName label sp (fx', st))"
  by (simp add: rq_defs instrumentedFetch_def fetch_begin_def Let_def)

lemma requestJson_begin_result:
  assumes "headers_accepted (i_headers init)"
  shows "requestJson_begin cfg env path init spanName fx
     = (Inr (startSpan spanName
               [(''http.url'', AttrString (API_BASE_URL cfg @ path)),
                (''http.method'', AttrString (method_or_GET init))]
               (fe_traceId (ce_fetch env))),
        fx\<lparr>fx_fetched := fx_fetched fx @ [\<lparr>rq_url = API_BASE_URL cfg @ path, rq_init = init\<rparr>]\<rparr>)"
  using assms by (simp add: requestJson_begin_def fetch_begin_def)

lemma requestJson_end_result:
  assumes "requestJson_end cfg env init spanName label sp (fx, st) = (outcome, fx', st')"
  shows "fx_fetched fx' = fx_fetched fx"
    and "fx_opened fx' = fx_opened fx"
    and "jobs st' = jobs st" and "health st' = health st"
    and "isSubmitting st' = isSubmitting st" and "initiateError st' = initiateError st"
    and "outcome = (case fe_outcome (ce_fetch env) of
                      Rejects err \<Rightarrow> Inl (case err_message err of Inl e \<Rightarrow> e | Inr msg \<Rightarrow> err)
                    | Resolves response \<Rightarrow>
                        if r_ok response then r_json response
                        else Inl (ErrorObj (if r_text response \<noteq> [] then r_text response
                               else ''Request failed ('' @ nat_to_string (r_status response) @ '')'')))"
    and "metrics st' = (case fe_outcome (ce_fetch env) of
                          Rejects err \<Rightarrow> metrics st
                        | Resolves response \<Rightarrow>
                            recordMetric (ce_metric_id env) (ce_metric_time env)
                              \<lparr>mi_endpoint = label, mi_method = method_or_GET init,
                               mi_duration = fe_finished (ce_fetch env) - fe_started (ce_fetch env),
                               mi_status = r_status response, mi_success = r_ok response,
                               mi_traceId = sp_traceId sp\<rparr>
                              (metrics st))"
  using assms
  by (auto simp: rq_defs if_defs Let_def captureFrontendError_def showFeedbackDialog_def
      split: fetch_outcome.splits sum.splits if_splits)

lemma requestJson_result:
  assumes "requestJson cfg env path init spanName label (fx, st) = (outcome, fx', st')"
    and "headers_accepted (i_headers init)"
  shows "fx_fetched fx' = fx_fetched fx @ [\<lparr>rq_url = API_BASE_URL cfg @ path, rq_init = init\<rparr>]"
    and "fx_opened fx' = fx_opened fx"
    and "jobs st' = jobs st" and "health st' = health st"
    and "isSubmitting st' = isSubmitting st" and "initiateError st' = initiateError st"
    and "outcome = (case fe_outcome (ce_fetch env) of
                      Rejects err \<Rightarrow> Inl (case err_message err of Inl e \<Rightarrow> e | Inr msg \<Rightarrow> err)
                    | Resolves response \<Rightarrow>
                        if r_ok response then r_json response
                        else Inl (ErrorObj (if r_text response \<noteq> [] then r_text response
                               else ''Request failed ('' @ nat_to_string (r_status response) @ '')'')))"
    and "metrics st' = (case fe_outcome (ce_fetch env) of
                          Rejects err \<Rightarrow> metrics st
                        | Resolves response \<Rightarrow>
                            recordMetric (ce_metric_id env) (ce_metric_time env)
                              \<lparr>mi_endpoint = label, mi_method = method_or_GET init,
                               mi_duration = fe_finished (ce_fetch env) - fe_started (ce_fetch env),
                               mi_status = r_status response, mi_success = r_ok response,
                               mi_traceId = fe_traceId (ce_fetch env)\<rparr>
                              (metrics st))"
proof -
  have e: "requestJson_end cfg env init spanName label
             (startSpan spanName
               [(''http.url'', AttrString (API_BASE_URL cfg @ path)),
                (''http.method'', AttrString (method_or_GET init))]
               (fe_traceId (ce_fetch env)))
             (fx\<lparr>fx_fetched := fx_fetched fx @ [\<lparr>rq_url = API_BASE_URL cfg @ path, rq_init = init\<rparr>]\<rparr>, st)
           = (outcome, fx', st')"
    using assms by (simp add: requestJson_split requestJson_begin_result)
  note r = requestJson_end_result [OF e]
  show "fx_fetched fx' = fx_fetched fx @ [\<lparr>rq_url = API_BASE_URL cfg @ path, rq_init = init\<rparr>]"
    using r(1) by simp
  show "fx_opened fx' = fx_opened fx" using r(2) by simp
  show "jobs st' = jobs st" by (rule r(3))
  show "health st' = health st" by (rule r(4))
  show "isSubmitting st' = isSubmitting st" by (rule r(5))
  show "initiateError st' = initiateError st" by (rule r(6))
  show "outcome = (case fe_outcome (ce_fetch env) of
                      Rejects err \<Rightarrow> Inl (case err_message err of Inl e \<Rightarrow> e | Inr msg \<Rightarrow> err)
                    | Resolves response \<Rightarrow>
                        if r_ok response then r_json response
                        else Inl (ErrorObj (if r_text response \<noteq> [] then r_text response
                               else ''Request failed ('' @ nat_to_string (r_status response) @ '')'')))"
    by (rule r(7))
  show "metrics st' = (case fe_outcome (ce_fetch env) of
                          Rejects err \<Rightarrow> metrics st
                        | Resolves response \<Rightarrow>
                            recordMetric (ce_metric_id env) (ce_metric_time env)
                              \<lparr>mi_endpoint = label, mi_method = method_or_GET init,
                               mi_duration = fe_finished (ce_fetch env) - fe_started (ce_fetch env),
                               mi_status = r_status response, mi_success = r_ok response,
                               mi_traceId = fe_traceId (ce_fetch env)\<rparr>
                              (metrics st))"
    unfolding r(8) by (simp add: startSpan_def split: fetch_outcome.splits)
qed

text \<open>
  C3. With an empty list of file ids, handleDownloadInitiation sets the validation message
  and returns: the outside world is unchanged (no call of \<^verbatim>\<open>fetch\<close>, of Sentry, no span),
  and of the state only \<^verbatim>\<open>initiateError\<close> changes, so the job map is as before.
\<close>

theorem handleDownloadInitiation_empty:
  fixes cfg env fx st
  defines "after \<equiv> handleDownloadInitiation cfg env [] (fx, st)"
  shows "fst after = fx
     \<and> requests_since fx (fst after) = []
     \<and> snd after = st\<lparr>initiateError :=
                        Some ''Please enter at least one file ID between 10,000 and 100,000,000.''\<rparr>
     \<and> jobs (snd after) = jobs st"
  unfolding after_def by (simp add: handleDownloadInitiation_def requests_since_def)

text \<open>
  C4. For every non-empty list of file ids, handleDownloadInitiation calls \<^verbatim>\<open>fetch\<close> once,
  with POST /v1/download/initiate and the body \<^verbatim>\<open>{file_ids, clientRequestId, userId}\<close> whose
  \<^verbatim>\<open>file_ids\<close> is that list. When the response is ok and its body parses, the job map holds
  under the returned jobId a job with the returned status and expiresAt, progressPercent 0,
  attempts 0 and the submitted list as fileIds; the key keeps its place or is added at the
  end and all other entries are as before. In every other case the job map is unchanged.
\<close>

theorem handleDownloadInitiation_request:
  fixes cfg env ids fx st
  defines "after \<equiv> handleDownloadInitiation cfg env ids (fx, st)"
  defines "stored \<equiv> map_of (jobs (snd after))"
  assumes nonempty: "ids \<noteq> []"
  shows "fx_fetched (fst after) = fx_fetched fx @
           [\<lparr>rq_url = API_BASE_URL cfg @ ''/v1/download/initiate'',
             rq_init = \<lparr>i_method = Some ''POST'',
                        i_headers = [(''Content-Type'', ''application/json'')],
                        i_body = Some \<lparr>b_file_ids = ids,
                                       b_clientRequestId = ie_clientRequestId env,
                                       b_userId = ''observability-demo-user''\<rparr>\<rparr>\<rparr>]
     \<and> (case fe_outcome (ce_fetch (ie_call env)) of
          Rejects err \<Rightarrow> jobs (snd after) = jobs st
        | Resolves response \<Rightarrow>
            (case r_json response of
               Inl err \<Rightarrow> jobs (snd after) = jobs st
             | Inr payload \<Rightarrow>
                 if r_ok response
                 then (case stored (p_jobId payload) of
                         None \<Rightarrow> False
                       | Some job \<Rightarrow>
                           jobId job = p_jobId payload \<and> status job = p_status payload
                           \<and> expiresAt job = p_expiresAt payload
                           \<and> progressPercent job = 0 \<and> attempts job = 0
                           \<and> fileIds job = ids)
                      \<and> map fst (jobs (snd after))
                          = (if p_jobId payload \<in> fst ` set (jobs st) then map fst (jobs st)
                             else map fst (jobs st) @ [p_jobId payload])
                      \<and> stored |` (- {p_jobId payload}) = map_of (jobs st) |` (- {p_jobId payload})
                 else jobs (snd after) = jobs st))"
proof -
  obtain outcome fx1 st1 where rq:
    "requestJson cfg (ie_call env) ''/v1/download/initiate'' (initiate_init env ids)
       ''api.download.initiate'' ''POST /v1/download/initiate''
       (fx, st\<lparr>initiateError := None, isSubmitting := True\<rparr>) = (outcome, fx1, st1)"
    by (metis prod_cases3)
  have "headers_accepted (i_headers (initiate_init env ids))"
    by (simp add: initiate_init_def headers_accepted_json)
  note r = requestJson_result [OF rq this]
  have after: "after =
    (case outcome of
       Inr payload \<Rightarrow>
         (fx1\<lparr>fx_spans := fx_spans fx1 @ [span_call End (startSpan ''ui.initiate_download'' [] (ie_ui_traceId env))]\<rparr>,
          st1\<lparr>jobs := map_set (p_jobId payload) (new_job env payload ids) (jobs st1),
              isSubmitting := False\<rparr>)
     | Inl err \<Rightarrow>
         ((captureFrontendError ''Failed to initiate download'' [(''error'', ExtraThrown err)] fx1)
            \<lparr>fx_spans := fx_spans fx1 @ [span_call End (startSpan ''ui.initiate_download'' [] (ie_ui_traceId env))]\<rparr>,
          (case err_message err of
             Inl e \<Rightarrow> st1
           | Inr msg \<Rightarrow>
               st1\<lparr>errorEvents := recordError (ie_error_id env) (ie_error_time env)
                          \<lparr>ei_message = ''Download initiation failed'',
                           ei_traceId = None,
                           ei_context = Some msg\<rparr>
                          (errorEvents st1)\<rparr>)
            \<lparr>isSubmitting := False\<rparr>))"
    unfolding after_def using nonempty rq
    by (simp add: handleDownloadInitiation_def Let_def captureFrontendError_def split: sum.splits)
  have fetched: "fx_fetched (fst after) = fx_fetched fx1"
    by (simp add: after captureFrontendError_def split: sum.splits)
  have req: "fx_fetched (fst after) = fx_fetched fx @
           [\<lparr>rq_url = API_BASE_URL cfg @ ''/v1/download/initiate'',
             rq_init = initiate_init env ids\<rparr>]"
    using r(1) fetched by simp
  have unchanged: "jobs (snd after) = jobs st" if "isl outcome"
    using that r(3) by (cases outcome) (simp_all add: after split: sum.splits)
  have stored_ok: "jobs (snd after) = map_set (p_jobId payload) (new_job env payload ids) (jobs st)"
    if "outcome = Inr payload" for payload
    using that r(3) by (simp add: after)
  show ?thesis
  proof (cases "fe_outcome (ce_fetch (ie_call env))")
    case (Rejects err)
    then have "isl outcome" using r(7) by simp
    with Rejects req show ?thesis
      by (simp add: unchanged initiate_init_def)
  next
    case (Resolves response)
    show ?thesis
    proof (cases "r_ok response")
      case False
      then have "isl outcome" using r(7) Resolves by simp
      with Resolves req False show ?thesis
        by (simp add: unchanged initiate_init_def split: sum.splits)
    next
      case True
      then have out: "outcome = r_json response" using r(7) Resolves by simp
      show ?thesis
      proof (cases "r_json response")
        case (Inl err)
        then have "isl outcome" using out by simp
        with Resolves req Inl show ?thesis
          by (simp add: unchanged initiate_init_def)
      next
        case (Inr payload)
        then have j: "jobs (snd after) = map_set (p_jobId payload) (new_job env payload ids) (jobs st)"
          using out stored_ok by simp
        have keys: "map fst (map_set k v kvs)
            = (if k \<in> fst ` set kvs then map fst kvs else map fst kvs @ [k])" for k :: string and v :: DownloadJob and kvs
          by (induction kvs) (fastforce simp: image_iff)+
        show ?thesis
          using Resolves True Inr req
          by (simp add: stored_def j map_of_map_set new_job_def initiate_init_def keys restrict_map_def fun_eq_iff)
      qed
    qed
  qed
qed

text \<open>
  C6, as stated, renders the Download action whenever the status is completed and
  downloadUrl is not null. The JSX tests \<^verbatim>\<open>job.downloadUrl\<close> for truthiness: a completed
  job whose downloadUrl is the empty string has no Download button.
\<close>

theorem download_button_empty_url_counterexample:
  "footer_buttons
     \<lparr>jobId = ''job-1'', status = completed, progressPercent = 100, message = ''done'',
      attempts = 1, downloadUrl = Some [], checksum = None, size_bytes = None,
      retryAfterMs = None, fileIds = [Finite 70000], priority = standard,
      userId = ''observability-demo-user'', createdAt = ''2025-01-01T00:00:00.000Z'',
      startedAt = None, completedAt = None, expiresAt = ''2025-01-01T01:00:00.000Z'',
      lastSyncedAt = 0\<rparr> = []"
  by (simp add: footer_buttons_def)

text \<open>
  C6 (amended). The Download action is rendered for a job if and only if its status is
  completed and its downloadUrl is a non-empty string, and activating it opens exactly
  \<^verbatim>\<open>`${API_BASE_URL}/v1/download/${jobId}?format=json`\<close> in a new window.
\<close>

theorem download_button:
  "(DownloadButton \<in> set (footer_buttons job) \<longleftrightarrow>
      status job = completed \<and> downloadUrl job \<noteq> None \<and> downloadUrl job \<noteq> Some [])
   \<and> onClick cfg env DownloadButton job (fx, st)
       = (fx\<lparr>fx_opened := fx_opened fx
               @ [(API_BASE_URL cfg @ ''/v1/download/'' @ jobId job @ ''?format=json'', ''_blank'')]\<rparr>,
          st)"
  by (cases "downloadUrl job") (auto simp: footer_buttons_def handleDownload_def)

text \<open>
  C7. pollHealth requests GET /health. When the response is ok and its body parses to
  \<^verbatim>\<open>{status, checks: {storage}}\<close>, the stored health state has that status and that storage
  value; when the request fails (the fetch throws, the response is not ok, the body does
  not parse or has no \<^verbatim>\<open>checks\<close>) the stored health state is the previous one.
\<close>

theorem pollHealth_health:
  fixes cfg env now fx st
  defines "after \<equiv> pollHealth cfg env now (fx, st)"
  shows "fx_fetched (fst after)
           = fx_fetched fx @ [\<lparr>rq_url = API_BASE_URL cfg @ ''/health'', rq_init = no_init\<rparr>]
     \<and> health (snd after) =
         (case fe_outcome (ce_fetch env) of
            Rejects err \<Rightarrow> health st
          | Resolves response \<Rightarrow>
              if r_ok response
              then (case r_json response of
                      Inl err \<Rightarrow> health st
                    | Inr data \<Rightarrow>
                        (case hp_checks data of
                           None \<Rightarrow> health st
                         | Some storage \<Rightarrow>
                             Some \<lparr>hs_status = hp_status data, hs_storage = storage,
                                   hs_checkedAt = now\<rparr>))
              else health st)"
proof -
  obtain outcome fx1 st1 where rq:
    "requestJson cfg env ''/health'' no_init ''api.health'' ''health'' (fx, st) = (outcome, fx1, st1)"
    by (metis prod_cases3)
  note r = requestJson_result [OF rq headers_accepted_no_init]
  have "fx_fetched (fst after) = fx_fetched fx1"
    unfolding after_def using rq
    by (simp add: pollHealth_def captureFrontendError_def split: sum.splits option.splits)
  moreover have "health (snd after) =
      (case outcome of
         Inl err \<Rightarrow> health st
       | Inr data \<Rightarrow>
           (case hp_checks data of
              None \<Rightarrow> health st
            | Some storage \<Rightarrow>
                Some \<lparr>hs_status = hp_status data, hs_storage = storage, hs_checkedAt = now\<rparr>))"
    unfolding after_def using rq r(4)
    by (simp add: pollHealth_def split: sum.splits option.splits)
  ultimately show ?thesis
    using r(1) r(7) by (simp split: fetch_outcome.splits sum.splits)
qed

subsection \<open>Status polling\<close>

lemma own_properties_example:
  "own_properties
     [(''b'', 1::nat), (''10'', 2), (''2'', 3), (''a'', 4), (''01'', 5), (''4294967295'', 6),
      (''0'', 7), (''4294967294'', 8)]
   = [(''0'', 7), (''2'', 3), (''10'', 2), (''4294967294'', 8), (''b'', 1), (''a'', 4),
      (''01'', 5), (''4294967295'', 6)]"
  by (simp add: own_properties_def array_index_def decimal_value_def)

lemma set_own_properties: "set (own_properties obj) = set obj"
proof -
  have "snd ` set (concat (map (\<lambda>(k, v). case array_index k of
                                            Some i \<Rightarrow> [(i, (k, v))] | None \<Rightarrow> []) obj))
          = {x \<in> set obj. array_index (fst x) \<noteq> None}"
  proof (induction obj)
    case Nil
    then show ?case by simp
  next
    case (Cons a obj)
    obtain k v where a: "a = (k, v)" by (cases a)
    show ?case
    proof (cases "array_index k")
      case None
      with Cons a show ?thesis by auto
    next
      case (Some i)
      with Cons a show ?thesis by auto
    qed
  qed
  then show ?thesis
    by (auto simp: own_properties_def)
qed

lemma set_Object_values: "set (Object_values obj) = snd ` set obj"
  by (simp add: Object_values_def set_own_properties)

lemma poll_send_result:
  "poll_send cfg env jid (fx, fl)
     = (fx\<lparr>fx_fetched := fx_fetched fx @ [status_request cfg jid]\<rparr>,
        fl @ [\<lparr>fl_jobId = jid,
               fl_span = startSpan ''api.download.status''
                 [(''http.url'', AttrString (API_BASE_URL cfg @ ''/v1/download/status/'' @ jid)),
                  (''http.method'', AttrString (method_or_GET no_init))]
                 (fe_traceId (ce_fetch (pe_call env))),
               fl_env = env\<rparr>])"
  by (simp add: poll_send_def requestJson_begin_result [OF headers_accepted_no_init]
      status_request_def)

lemma poll_send_fold_all:
  assumes "fold (\<lambda>jid. poll_send cfg (envs jid) jid) ids (fx, fl) = (fx', fl')"
  shows "fx_fetched fx' = fx_fetched fx @ map (status_request cfg) ids
     \<and> map fl_jobId fl' = map fl_jobId fl @ ids
     \<and> (list_all echoed fl \<and> echoes envs \<longrightarrow> list_all echoed fl')"
  using assms
proof (induction ids arbitrary: fx fl)
  case Nil
  then show ?case by simp
next
  case (Cons jid ids)
  let ?sp = "startSpan ''api.download.status''
                 [(''http.url'', AttrString (API_BASE_URL cfg @ ''/v1/download/status/'' @ jid)),
                  (''http.method'', AttrString (method_or_GET no_init))]
                 (fe_traceId (ce_fetch (pe_call (envs jid))))"
  let ?r = "\<lparr>fl_jobId = jid, fl_span = ?sp, fl_env = envs jid\<rparr>"
  let ?fx = "fx\<lparr>fx_fetched := fx_fetched fx @ [status_request cfg jid]\<rparr>"
  from Cons.prems
  have f: "fold (\<lambda>jid. poll_send cfg (envs jid) jid) ids (?fx, fl @ [?r]) = (fx', fl')"
    by (simp add: poll_send_result)
  have e: "echoed ?r" if "echoes envs"
    using that by (auto simp: echoed_def echoes_def split: fetch_outcome.splits sum.splits)
  from Cons.IH [OF f] e show ?case by simp
qed

lemma poll_send_fold:
  assumes "fold (\<lambda>jid. poll_send cfg (envs jid) jid) ids (fx, fl) = (fx', fl')"
  shows "fx_fetched fx' = fx_fetched fx @ map (status_request cfg) ids"
    and "map fl_jobId fl' = map fl_jobId fl @ ids"
    and "list_all echoed fl \<Longrightarrow> echoes envs \<Longrightarrow> list_all echoed fl'"
  using poll_send_fold_all [OF assms] by simp_all

lemma poll_tick_result:
  assumes "poll_tick cfg envs (fx, st, fl) = (fx', st', fl')"
  shows "fx_fetched fx' = fx_fetched fx @ map (status_request cfg) (pendingJobIds (jobs st))"
    and "st' = st"
    and "map fl_jobId fl' = map fl_jobId fl @ pendingJobIds (jobs st)"
    and "list_all echoed fl \<Longrightarrow> echoes envs \<Longrightarrow> list_all echoed fl'"
proof -
  obtain fx1 fl1 where f:
    "fold (\<lambda>jid. poll_send cfg (envs jid) jid) (pendingJobIds (jobs st)) (fx, fl) = (fx1, fl1)"
    by (cases "fold (\<lambda>jid. poll_send cfg (envs jid) jid) (pendingJobIds (jobs st)) (fx, fl)")
  with assms have eq: "fx' = fx1" "st' = st" "fl' = fl1"
    by (simp_all add: poll_tick_def)
  show "fx_fetched fx' = fx_fetched fx @ map (status_request cfg) (pendingJobIds (jobs st))"
    using poll_send_fold(1) [OF f] eq by simp
  show "st' = st" by (rule eq(2))
  show "map fl_jobId fl' = map fl_jobId fl @ pendingJobIds (jobs st)"
    using poll_send_fold(2) [OF f] eq by simp
  show "list_all echoed fl \<Longrightarrow> echoes envs \<Longrightarrow> list_all echoed fl'"
    using poll_send_fold(3) [OF f] eq by simp
qed

lemma poll_receive_result:
  assumes "poll_receive cfg r (fx, st) = (fx', st')"
  shows "fx_fetched fx' = fx_fetched fx"
    and "jobs st' = jobs st
         \<or> (\<exists>response data. fe_outcome (ce_fetch (pe_call (fl_env r))) = Resolves response
               \<and> r_json response = Inr data
               \<and> jobs st' = map_set (fl_jobId r) (data\<lparr>lastSyncedAt := pe_now (fl_env r)\<rparr>) (jobs st))"
proof -
  obtain outcome fx1 st1 where rq:
    "requestJson_end cfg (pe_call (fl_env r)) no_init ''api.download.status''
       (''GET /v1/download/status/'' @ fl_jobId r) (fl_span r) (fx, st) = (outcome, fx1, st1)"
    by (metis prod_cases3)
  note e = requestJson_end_result [OF rq]
  show "fx_fetched fx' = fx_fetched fx"
    using assms rq e(1)
    by (auto simp: poll_receive_def captureFrontendError_def split: sum.splits)
  show "jobs st' = jobs st
         \<or> (\<exists>response data. fe_outcome (ce_fetch (pe_call (fl_env r))) = Resolves response
               \<and> r_json response = Inr data
               \<and> jobs st' = map_set (fl_jobId r) (data\<lparr>lastSyncedAt := pe_now (fl_env r)\<rparr>) (jobs st))"
  proof (cases outcome)
    case (Inl err)
    then show ?thesis using assms rq e(3) by (auto simp: poll_receive_def)
  next
    case (Inr data)
    then have "jobs st' = map_set (fl_jobId r) (data\<lparr>lastSyncedAt := pe_now (fl_env r)\<rparr>) (jobs st)"
      using assms rq e(3) by (auto simp: poll_receive_def merge_job_def)
    moreover have "\<exists>response. fe_outcome (ce_fetch (pe_call (fl_env r))) = Resolves response
        \<and> r_json response = Inr data"
      using e(7) Inr by (auto split: fetch_outcome.splits if_splits)
    ultimately show ?thesis by blast
  qed
qed

lemma snd_set_map_set: "snd ` set (map_set k v kvs) \<subseteq> insert v (snd ` set kvs)"
  by (induction kvs) (force split: if_splits)+

lemma status_request_inject: "status_request cfg j = status_request cfg k \<Longrightarrow> j = k"
  by (simp add: status_request_def)

lemma pendingJobIds_iff:
  "jid \<in> set (pendingJobIds js) \<longleftrightarrow>
     (\<exists>job\<in>set (Object_values js). jobId job = jid \<and> status job \<notin> set terminalStatuses)"
  by (auto simp: pendingJobIds_def)

lemma all_terminal_not_pending: "all_terminal js jid \<Longrightarrow> jid \<notin> set (pendingJobIds js)"
  by (auto simp: pendingJobIds_iff all_terminal_def list_all_iff)

lemma poll_receive_all_terminal:
  assumes "all_terminal (jobs st) j" and "fl_jobId r \<noteq> j" and "echoed r"
    and p: "poll_receive cfg r (fx, st) = (fx', st')"
  shows "all_terminal (jobs st') j"
proof -
  from poll_receive_result(2) [OF p] show ?thesis
  proof
    assume "jobs st' = jobs st"
    then show ?thesis using assms(1) by simp
  next
    assume "\<exists>response data. fe_outcome (ce_fetch (pe_call (fl_env r))) = Resolves response
               \<and> r_json response = Inr data
               \<and> jobs st' = map_set (fl_jobId r) (data\<lparr>lastSyncedAt := pe_now (fl_env r)\<rparr>) (jobs st)"
    then obtain response data where d:
      "fe_outcome (ce_fetch (pe_call (fl_env r))) = Resolves response"
      "r_json response = Inr data"
      "jobs st' = map_set (fl_jobId r) (data\<lparr>lastSyncedAt := pe_now (fl_env r)\<rparr>) (jobs st)"
      by blast
    have "jobId data = fl_jobId r" using assms(3) d(1,2) by (simp add: echoed_def)
    then have new: "jobId (data\<lparr>lastSyncedAt := pe_now (fl_env r)\<rparr>) \<noteq> j"
      using assms(2) by simp
    have "snd ` set (jobs st')
            \<subseteq> insert (data\<lparr>lastSyncedAt := pe_now (fl_env r)\<rparr>) (snd ` set (jobs st))"
      unfolding d(3) by (rule snd_set_map_set)
    moreover have "status job \<in> set terminalStatuses"
      if "job \<in> insert (data\<lparr>lastSyncedAt := pe_now (fl_env r)\<rparr>) (snd ` set (jobs st))"
        "jobId job = j"
      for job
      using that assms(1) new
      by (auto simp: all_terminal_def list_all_iff set_Object_values)
    ultimately show "all_terminal (jobs st') j"
      unfolding all_terminal_def list_all_iff set_Object_values by auto
  qed
qed

lemma poll_answer_result:
  assumes "poll_answer cfg i (fx, st, fl) = (fx', st', fl')"
  shows "fx_fetched fx' = fx_fetched fx"
    and "set fl' \<subseteq> set fl"
    and "all_terminal (jobs st) j \<Longrightarrow> settled fl j \<Longrightarrow> list_all echoed fl
         \<Longrightarrow> all_terminal (jobs st') j"
proof -
  show "fx_fetched fx' = fx_fetched fx"
  proof (cases "i < length fl")
    case True
    obtain fx1 st1 where p: "poll_receive cfg (fl ! i) (fx, st) = (fx1, st1)"
      by (cases "poll_receive cfg (fl ! i) (fx, st)")
    with True assms poll_receive_result(1) [OF p] show ?thesis
      by (simp add: poll_answer_def)
  next
    case False
    with assms show ?thesis by (simp add: poll_answer_def)
  qed
  show sub: "set fl' \<subseteq> set fl"
  proof (cases "i < length fl")
    case True
    obtain fx1 st1 where p: "poll_receive cfg (fl ! i) (fx, st) = (fx1, st1)"
      by (cases "poll_receive cfg (fl ! i) (fx, st)")
    with True assms have "fl' = take i fl @ drop (Suc i) fl"
      by (simp add: poll_answer_def)
    then show ?thesis
      using set_take_subset [of i fl] set_drop_subset [of "Suc i" fl] by auto
  next
    case False
    with assms show ?thesis by (simp add: poll_answer_def)
  qed
  show "all_terminal (jobs st') j"
    if t: "all_terminal (jobs st) j" and s: "settled fl j" and e: "list_all echoed fl"
  proof (cases "i < length fl")
    case True
    obtain fx1 st1 where p: "poll_receive cfg (fl ! i) (fx, st) = (fx1, st1)"
      by (cases "poll_receive cfg (fl ! i) (fx, st)")
    with True assms have st': "st' = st1"
      by (simp add: poll_answer_def)
    have mem: "fl ! i \<in> set fl" using True by simp
    then have "fl_jobId (fl ! i) \<noteq> j" using s by (auto simp: settled_def)
    moreover have "echoed (fl ! i)" using e mem by (simp add: list_all_iff)
    ultimately show ?thesis
      using poll_receive_all_terminal [OF t _ _ p] st' by simp
  next
    case False
    with assms t show ?thesis by (simp add: poll_answer_def)
  qed
qed

text \<open>
  While every job with the id \<open>j\<close> is terminal, no request for \<open>j\<close> is in flight and the
  answers carry the job id asked for, an event keeps it so and sends no request for \<open>j\<close>.
\<close>

lemma poll_step_terminal:
  assumes "all_terminal (jobs st) j" and "settled fl j" and "list_all echoed fl"
    and "ticks_echo [ev]"
    and "poll_step cfg ev (fx, st, fl) = (fx', st', fl')"
  shows "all_terminal (jobs st') j \<and> settled fl' j \<and> list_all echoed fl'
     \<and> (\<exists>new. fx_fetched fx' = fx_fetched fx @ new \<and> status_request cfg j \<notin> set new)"
proof (cases ev)
  case (Tick envs)
  then have p: "poll_tick cfg envs (fx, st, fl) = (fx', st', fl')"
    using assms(5) by simp
  note r = poll_tick_result [OF p]
  have e: "echoes envs" using assms(4) Tick by simp
  have np: "j \<notin> set (pendingJobIds (jobs st))"
    using assms(1) by (rule all_terminal_not_pending)
  have "set (map fl_jobId fl') = set (map fl_jobId fl) \<union> set (pendingJobIds (jobs st))"
    unfolding r(3) by simp
  then have "settled fl' j"
    using assms(2) np unfolding settled_def by blast
  moreover have "status_request cfg j \<notin> set (map (status_request cfg) (pendingJobIds (jobs st)))"
    using np by (auto dest: status_request_inject)
  ultimately show ?thesis
    using r(1) r(2) r(4) [OF assms(3) e] assms(1) by blast
next
  case (Answer i)
  then have p: "poll_answer cfg i (fx, st, fl) = (fx', st', fl')"
    using assms(5) by simp
  note r = poll_answer_result [OF p]
  have "settled fl' j"
    using r(2) assms(2) by (auto simp: settled_def)
  moreover have "list_all echoed fl'"
    using r(2) assms(3) by (auto simp: list_all_iff)
  moreover have "fx_fetched fx' = fx_fetched fx @ [] \<and> status_request cfg j \<notin> set []"
    using r(1) by simp
  ultimately show ?thesis
    using r(3) [OF assms(1-3)] by blast
qed

lemma ticks_echo_Cons: "ticks_echo (ev # evs) \<longleftrightarrow> ticks_echo [ev] \<and> ticks_echo evs"
  by (cases ev) simp_all

lemma poll_run_terminal:
  assumes "all_terminal (jobs st) j" and "settled fl j" and "list_all echoed fl"
    and "ticks_echo evs"
    and "poll_run cfg evs (fx, st, fl) = (fx', st', fl')"
  shows "all_terminal (jobs st') j
     \<and> (\<exists>new. fx_fetched fx' = fx_fetched fx @ new \<and> status_request cfg j \<notin> set new)"
  using assms
proof (induction evs arbitrary: fx st fl)
  case Nil
  then show ?case by simp
next
  case (Cons ev evs)
  obtain fx1 st1 fl1 where s: "poll_step cfg ev (fx, st, fl) = (fx1, st1, fl1)"
    by (metis prod_cases3)
  have e: "ticks_echo [ev]" "ticks_echo evs"
    using Cons.prems(4) ticks_echo_Cons [of ev evs] by simp_all
  from poll_step_terminal [OF Cons.prems(1-3) e(1) s] obtain new1 where
    i: "all_terminal (jobs st1) j" "settled fl1 j" "list_all echoed fl1"
    and n1: "fx_fetched fx1 = fx_fetched fx @ new1" "status_request cfg j \<notin> set new1"
    by blast
  have "poll_run cfg evs (fx1, st1, fl1) = (fx', st', fl')"
    using Cons.prems(5) s by simp
  from Cons.IH [OF i e(2) this] obtain new2 where
    t: "all_terminal (jobs st') j"
    and n2: "fx_fetched fx' = fx_fetched fx1 @ new2" "status_request cfg j \<notin> set new2"
    by blast
  have "fx_fetched fx' = fx_fetched fx @ (new1 @ new2)" "status_request cfg j \<notin> set (new1 @ new2)"
    using n1 n2 by simp_all
  with t show ?case by blast
qed

lemma pendingJobIds_wf:
  assumes "jobs_wf js"
  shows "jid \<in> set (pendingJobIds js) \<longleftrightarrow>
           (\<exists>job. map_of js jid = Some job \<and> status job \<notin> set terminalStatuses)"
proof -
  have d: "distinct (map fst js)" and k: "\<And>key job. (key, job) \<in> set js \<Longrightarrow> jobId job = key"
    using assms by (auto simp: jobs_wf_def list_all_iff)
  show ?thesis
  proof
    assume "jid \<in> set (pendingJobIds js)"
    then obtain key job where "(key, job) \<in> set js" "jobId job = jid"
      "status job \<notin> set terminalStatuses"
      by (auto simp: pendingJobIds_iff set_Object_values)
    moreover from this k have "key = jid" by auto
    ultimately show "\<exists>job. map_of js jid = Some job \<and> status job \<notin> set terminalStatuses"
      using d by auto
  next
    assume "\<exists>job. map_of js jid = Some job \<and> status job \<notin> set terminalStatuses"
    then obtain job where j: "map_of js jid = Some job" "status job \<notin> set terminalStatuses"
      by blast
    then have "(jid, job) \<in> set js" by (auto dest: map_of_SomeD)
    with k j show "jid \<in> set (pendingJobIds js)"
      by (force simp: pendingJobIds_iff set_Object_values)
  qed
qed

lemma array_index_job: "array_index (CHR ''j'' # k) = None"
  by (simp add: array_index_def)

lemma pendingJobIds_example_jobs: "pendingJobIds example_jobs = [''job-2'']"
  by (simp add: pendingJobIds_def example_jobs_def example_job_def Object_values_def
      own_properties_def array_index_job terminalStatuses_def)

text \<open>
  C2, as stated, has a job that is terminal never requested again. The answer to a status
  request is handled after an \<^verbatim>\<open>await\<close>, whenever it arrives, and nothing cancels a request
  in flight. Here one job is running and its answers take longer than the interval: two
  ticks send two requests; the answer to the second arrives first and says completed, so
  the job is terminal in the map; then the answer to the first arrives and says running.
  It overwrites the status, and the next tick requests the status of the job again.
\<close>

theorem status_polling_stale_answer_counterexample:
  "(case poll_run example_config
           [Tick (example_answers running), Tick (example_answers completed), Answer 1]
           (no_effects, initial_state\<lparr>jobs := [(''job-2'', example_job ''job-2'' running)]\<rparr>, [])
    of (fx, st, fl) \<Rightarrow>
      map (\<lambda>(k, job). (k, status job)) (jobs st) = [(''job-2'', completed)]
      \<and> all_terminal (jobs st) ''job-2''
      \<and> pendingJobIds (jobs st) = []
      \<and> (case poll_run example_config [Answer 0, Tick (example_answers running)] (fx, st, fl)
         of (fx', st', fl') \<Rightarrow>
           map (\<lambda>(k, job). (k, status job)) (jobs st') = [(''job-2'', running)]
           \<and> requests_since fx fx' = [status_request example_config ''job-2'']))"
  by (simp add: poll_tick_def poll_answer_def poll_send_result poll_receive_def rq_defs if_defs
      pendingJobIds_def Object_values_def own_properties_def array_index_job terminalStatuses_def
      all_terminal_def merge_job_def example_answers_def example_job_def example_config_def
      initial_state_def no_effects_def no_init_def method_or_GET_def r_ok_def
      recordMetric_def mk_metric_def requests_since_def status_request_def API_BASE_URL_def
      Let_def)

text \<open>
  C2 (amended). The terminal statuses are exactly completed, failed, cancelled and expired.
  A tick of the polling interval requests the status of exactly the job ids of the jobs in
  the map whose status is not terminal, and handling an answer sends no request: a job id
  is requested by a tick if and only if the map holds a job with that id and a non-terminal
  status (in a map that stores every job under its own id: if and only if the job found
  under that id has a non-terminal status). Once every job with a given id is terminal and
  no status request for that id is still awaiting its answer, the job stays terminal and
  its status is never requested again, over any sequence of ticks and answers in which
  every answer carries the job id that was asked for.
\<close>

theorem status_polling:
  "set terminalStatuses = {completed, failed, cancelled, expired}
   \<and> requests_since fx (fst (poll_tick cfg envs (fx, st, fl)))
       = map (status_request cfg) (pendingJobIds (jobs st))
   \<and> requests_since fx (fst (poll_answer cfg i (fx, st, fl))) = []
   \<and> (jid \<in> set (pendingJobIds (jobs st)) \<longleftrightarrow>
        (\<exists>job\<in>set (Object_values (jobs st)).
           jobId job = jid \<and> status job \<notin> {completed, failed, cancelled, expired}))
   \<and> (jobs_wf (jobs st) \<longrightarrow>
        (jid \<in> set (pendingJobIds (jobs st)) \<longleftrightarrow>
           (\<exists>job. map_of (jobs st) jid = Some job
                  \<and> status job \<notin> {completed, failed, cancelled, expired})))
   \<and> (all_terminal (jobs st) jid \<and> settled fl jid \<and> list_all echoed fl \<and> ticks_echo evs \<longrightarrow>
        status_request cfg jid \<notin> set (requests_since fx (fst (poll_run cfg evs (fx, st, fl))))
        \<and> all_terminal (jobs (fst (snd (poll_run cfg evs (fx, st, fl))))) jid)"
proof -
  have ts: "set terminalStatuses = {completed, failed, cancelled, expired}"
    by (auto simp: terminalStatuses_def)
  obtain fx1 st1 fl1 where t: "poll_tick cfg envs (fx, st, fl) = (fx1, st1, fl1)"
    by (metis prod_cases3)
  have tick: "requests_since fx (fst (poll_tick cfg envs (fx, st, fl)))
       = map (status_request cfg) (pendingJobIds (jobs st))"
    using poll_tick_result(1) [OF t] t by (simp add: requests_since_def)
  obtain fx2 st2 fl2 where a: "poll_answer cfg i (fx, st, fl) = (fx2, st2, fl2)"
    by (metis prod_cases3)
  have answer: "requests_since fx (fst (poll_answer cfg i (fx, st, fl))) = []"
    using poll_answer_result(1) [OF a] a by (simp add: requests_since_def)
  have never: "status_request cfg jid \<notin> set (requests_since fx (fst (poll_run cfg evs (fx, st, fl))))
        \<and> all_terminal (jobs (fst (snd (poll_run cfg evs (fx, st, fl))))) jid"
    if h: "all_terminal (jobs st) jid" "settled fl jid" "list_all echoed fl" "ticks_echo evs"
  proof -
    obtain fx3 st3 fl3 where r: "poll_run cfg evs (fx, st, fl) = (fx3, st3, fl3)"
      by (metis prod_cases3)
    from poll_run_terminal [OF h r] show ?thesis
      by (auto simp: r requests_since_def)
  qed
  show ?thesis
    using ts tick answer never pendingJobIds_iff [of jid "jobs st"] pendingJobIds_wf [of "jobs st" jid]
    by simp
qed

theorem status_polling_witness:
  "jobs_wf example_jobs
   \<and> all_terminal example_jobs ''job-1''
   \<and> settled [] ''job-1''
   \<and> echoes example_poll_envs
   \<and> requests_since no_effects
        (fst (poll_tick example_config example_poll_envs
               (no_effects, initial_state\<lparr>jobs := example_jobs\<rparr>, [])))
       = [status_request example_config ''job-2'']
   \<and> ''job-1'' \<notin> set (pendingJobIds example_jobs)
   \<and> status_request example_config ''job-1''
       \<notin> set (requests_since no_effects
                (fst (poll_run example_config
                       [Tick example_poll_envs, Answer 0, Tick example_poll_envs]
                       (no_effects, initial_state\<lparr>jobs := example_jobs\<rparr>, []))))"
proof -
  have wf: "jobs_wf example_jobs"
    by (simp add: jobs_wf_def example_jobs_def example_job_def)
  have fin: "all_terminal example_jobs ''job-1''"
    by (simp add: all_terminal_def list_all_iff set_Object_values example_jobs_def example_job_def
        terminalStatuses_def)
  have echo: "echoes example_poll_envs"
    by (auto simp: echoes_def example_poll_envs_def example_job_def)
  have none: "settled [] ''job-1''"
    by (simp add: settled_def)
  show ?thesis
    using wf fin echo none pendingJobIds_example_jobs
      status_polling [where fx = no_effects and cfg = example_config and envs = example_poll_envs
        and st = "initial_state\<lparr>jobs := example_jobs\<rparr>" and jid = "''job-1''" and fl = "[]"
        and evs = "[Tick example_poll_envs, Answer 0, Tick example_poll_envs]"]
    by simp
qed

theorem handleDownloadInitiation_request_witness:
  "[Finite 70000] \<noteq> []
   \<and> fx_fetched (fst (handleDownloadInitiation example_config example_initiate_env [Finite 70000]
                        (no_effects, initial_state)))
       = [\<lparr>rq_url = ''http://localhost:3000/v1/download/initiate'',
           rq_init = \<lparr>i_method = Some ''POST'',
                      i_headers = [(''Content-Type'', ''application/json'')],
                      i_body = Some \<lparr>b_file_ids = [Finite 70000],
                                     b_clientRequestId = ''0b0e7a4c-6a42-4b7e-9a57-2c1f0f5f8a11'',
                                     b_userId = ''observability-demo-user''\<rparr>\<rparr>\<rparr>]
   \<and> map fst (jobs (snd (handleDownloadInitiation example_config example_initiate_env [Finite 70000]
                        (no_effects, initial_state)))) = [''job-1'']
   \<and> (case map_of (jobs (snd (handleDownloadInitiation example_config example_initiate_env
                                 [Finite 70000] (no_effects, initial_state)))) ''job-1'' of
         None \<Rightarrow> False
       | Some job \<Rightarrow> status job = queued \<and> expiresAt job = ''2025-01-01T01:00:00.000Z''
                      \<and> progressPercent job = 0 \<and> attempts job = 0 \<and> fileIds job = [Finite 70000])"
proof -
  have out: "fe_outcome (ce_fetch (ie_call example_initiate_env))
      = Resolves \<lparr>r_status = 202, r_text = [],
                   r_json = Inr \<lparr>p_jobId = ''job-1'', p_status = queued,
                                 p_expiresAt = ''2025-01-01T01:00:00.000Z'', p_totalFileIds = 1\<rparr>\<rparr>"
    and crid: "ie_clientRequestId example_initiate_env = ''0b0e7a4c-6a42-4b7e-9a57-2c1f0f5f8a11''"
    by (simp_all add: example_initiate_env_def)
  have base: "API_BASE_URL example_config = ''http://localhost:3000''"
    by (simp add: API_BASE_URL_def example_config_def)
  have start: "fx_fetched no_effects = []" "jobs initial_state = []"
    by (simp_all add: no_effects_def initial_state_def)
  show ?thesis
    using handleDownloadInitiation_request
      [where ids = "[Finite 70000]" and env = example_initiate_env and cfg = example_config
         and fx = no_effects and st = initial_state]
    by (auto simp: out crid base start r_ok_def split: option.splits)
qed

subsection \<open>The methods of the recorded metrics\<close>

text \<open>
  \<^verbatim>\<open>recordMetric\<close> is called by \<^verbatim>\<open>requestJson\<close> only, with the method of the request, and
  the dashboard sends \<^verbatim>\<open>GET\<close> and \<^verbatim>\<open>POST\<close> requests only: no handler records a metric with
  another method.
\<close>

lemma get_or_post_recordMetric:
  assumes "get_or_post ms" and "mi_method metric = ''GET'' \<or> mi_method metric = ''POST''"
  shows "get_or_post (recordMetric uuid now metric ms)"
proof -
  have "set (recordMetric uuid now metric ms) \<subseteq> insert (mk_metric uuid now metric) (set ms)"
    unfolding recordMetric_def using set_take_subset [of 30 "mk_metric uuid now metric # ms"]
    by simp
  moreover have "m_method (mk_metric uuid now metric) = mi_method metric"
    by (simp add: mk_metric_def)
  ultimately show ?thesis
    using assms unfolding get_or_post_def list_all_iff by auto
qed

lemma get_or_post_requestJson_end:
  assumes "get_or_post (metrics st)"
    and "method_or_GET init = ''GET'' \<or> method_or_GET init = ''POST''"
    and "requestJson_end cfg env init spanName label sp (fx, st) = (outcome, fx', st')"
  shows "get_or_post (metrics st')"
  unfolding requestJson_end_result(8) [OF assms(3)]
  using assms(1,2) by (simp add: get_or_post_recordMetric split: fetch_outcome.splits)

lemma get_or_post_requestJson:
  assumes "get_or_post (metrics st)"
    and "method_or_GET init = ''GET'' \<or> method_or_GET init = ''POST''"
    and "requestJson cfg env path init spanName label (fx, st) = (outcome, fx', st')"
  shows "get_or_post (metrics st')"
proof (cases "requestJson_begin cfg env path init spanName fx")
  case (Pair started fx1)
  show ?thesis
  proof (cases started)
    case (Inl err)
    with Pair assms(3) have "st' = st"
      by (simp add: requestJson_split)
    with assms(1) show ?thesis by simp
  next
    case (Inr sp)
    with Pair assms(3)
    have "requestJson_end cfg env init spanName label sp (fx1, st) = (outcome, fx', st')"
      by (simp add: requestJson_split)
    from get_or_post_requestJson_end [OF assms(1,2) this] show ?thesis .
  qed
qed

lemma method_no_init: "method_or_GET no_init = ''GET''"
  by (simp add: method_or_GET_def no_init_def)

lemma method_initiate_init: "method_or_GET (initiate_init env ids) = ''POST''"
  by (simp add: method_or_GET_def initiate_init_def)

lemma get_or_post_handleDownloadInitiation:
  assumes "get_or_post (metrics st)"
  shows "get_or_post (metrics (snd (handleDownloadInitiation cfg env ids (fx, st))))"
proof (cases "ids = []")
  case True
  with assms show ?thesis by (simp add: handleDownloadInitiation_def)
next
  case False
  obtain outcome fx1 st1 where rq:
    "requestJson cfg (ie_call env) ''/v1/download/initiate'' (initiate_init env ids)
       ''api.download.initiate'' ''POST /v1/download/initiate''
       (fx, st\<lparr>initiateError := None, isSubmitting := True\<rparr>) = (outcome, fx1, st1)"
    by (metis prod_cases3)
  have "get_or_post (metrics (st\<lparr>initiateError := None, isSubmitting := True\<rparr>))"
    using assms by simp
  from get_or_post_requestJson [OF this _ rq] have "get_or_post (metrics st1)"
    by (simp add: method_initiate_init)
  moreover have "metrics (snd (handleDownloadInitiation cfg env ids (fx, st))) = metrics st1"
    using False rq
    by (simp add: handleDownloadInitiation_def Let_def split: sum.splits)
  ultimately show ?thesis by simp
qed

lemma get_or_post_pollHealth:
  assumes "get_or_post (metrics st)"
  shows "get_or_post (metrics (snd (pollHealth cfg env now (fx, st))))"
proof -
  obtain outcome fx1 st1 where rq:
    "requestJson cfg env ''/health'' no_init ''api.health'' ''health'' (fx, st) = (outcome, fx1, st1)"
    by (metis prod_cases3)
  from get_or_post_requestJson [OF assms _ rq] have "get_or_post (metrics st1)"
    by (simp add: method_no_init)
  moreover have "metrics (snd (pollHealth cfg env now (fx, st))) = metrics st1"
    using rq by (simp add: pollHealth_def split: sum.splits option.splits)
  ultimately show ?thesis by simp
qed

lemma get_or_post_poll_step:
  assumes "get_or_post (metrics st)" and "poll_step cfg ev (fx, st, fl) = (fx', st', fl')"
  shows "get_or_post (metrics st')"
proof (cases ev)
  case (Tick envs)
  with assms(2) have "st' = st"
    using poll_tick_result(2) by simp
  with assms(1) show ?thesis by simp
next
  case (Answer i)
  show ?thesis
  proof (cases "i < length fl")
    case False
    with Answer assms show ?thesis by (simp add: poll_answer_def)
  next
    case True
    obtain outcome fx1 st1 where rq:
      "requestJson_end cfg (pe_call (fl_env (fl ! i))) no_init ''api.download.status''
         (''GET /v1/download/status/'' @ fl_jobId (fl ! i)) (fl_span (fl ! i)) (fx, st)
       = (outcome, fx1, st1)"
      by (metis prod_cases3)
    from get_or_post_requestJson_end [OF assms(1) _ rq] have "get_or_post (metrics st1)"
      by (simp add: method_no_init)
    moreover have "metrics st' = metrics st1"
      using True Answer assms(2) rq
      by (auto simp: poll_answer_def poll_receive_def split: sum.splits prod.splits)
    ultimately show ?thesis by simp
  qed
qed

lemma get_or_post_poll_run:
  assumes "get_or_post (metrics st)" and "poll_run cfg evs (fx, st, fl) = (fx', st', fl')"
  shows "get_or_post (metrics st')"
  using assms
proof (induction evs arbitrary: fx st fl)
  case Nil
  then show ?case by simp
next
  case (Cons ev evs)
  obtain fx1 st1 fl1 where s: "poll_step cfg ev (fx, st, fl) = (fx1, st1, fl1)"
    by (metis prod_cases3)
  from get_or_post_poll_step [OF Cons.prems(1) s] have "get_or_post (metrics st1)" .
  moreover have "poll_run cfg evs (fx1, st1, fl1) = (fx', st', fl')"
    using Cons.prems(2) s by simp
  ultimately show ?case by (rule Cons.IH)
qed

text \<open>
  The metrics of the dashboard: none at the start, and every handler keeps the methods
  \<^verbatim>\<open>GET\<close> and \<^verbatim>\<open>POST\<close>, which have no space.
\<close>

lemma recorded_methods:
  "get_or_post (metrics initial_state)"
  "get_or_post (metrics st) \<Longrightarrow> get_or_post (metrics (snd (handleSubmit cfg ienv (fx, st))))"
  "get_or_post (metrics st) \<Longrightarrow> get_or_post (metrics (snd (handleRetry cfg ienv job (fx, st))))"
  "get_or_post (metrics st) \<Longrightarrow> get_or_post (metrics (snd (pollHealth cfg henv now (fx, st))))"
  "get_or_post (metrics st) \<Longrightarrow> get_or_post (metrics (fst (snd (poll_run cfg evs (fx, st, fl)))))"
  "get_or_post ms \<Longrightarrow> \<forall>m\<in>set ms. CHR '' '' \<notin> set (m_method m)"
proof -
  show "get_or_post (metrics initial_state)"
    by (simp add: get_or_post_def initial_state_def)
  show "get_or_post (metrics (snd (handleSubmit cfg ienv (fx, st))))" if "get_or_post (metrics st)"
    using that by (simp add: handleSubmit_def get_or_post_handleDownloadInitiation)
  show "get_or_post (metrics (snd (handleRetry cfg ienv job (fx, st))))" if "get_or_post (metrics st)"
    using that by (simp add: handleRetry_def get_or_post_handleDownloadInitiation)
  show "get_or_post (metrics (snd (pollHealth cfg henv now (fx, st))))" if "get_or_post (metrics st)"
    using that by (rule get_or_post_pollHealth)
  show "get_or_post (metrics (fst (snd (poll_run cfg evs (fx, st, fl)))))" if "get_or_post (metrics st)"
  proof -
    obtain fx' st' fl' where r: "poll_run cfg evs (fx, st, fl) = (fx', st', fl')"
      by (metis prod_cases3)
    from get_or_post_poll_run [OF that r] show ?thesis by (simp add: r)
  qed
  show "\<forall>m\<in>set ms. CHR '' '' \<notin> set (m_method m)" if "get_or_post ms"
    using that by (auto simp: get_or_post_def list_all_iff)
qed

subsection \<open>parseFileIds\<close>

lemmas parse_defs = parseFileIds_def split_separators_def Number_def trim_def is_separator_def
  is_space_def cu_def str_def parse_unsigned_decimal_def parse_exponent_def round_decimal_def
  round_double_def round_half_even_def pow2_def is_digit_def hex_value_def digits_value_def
  is_base_digit_def non_decimal_base_def or_NaN_def

lemma bits_numeral:
  "bits 0 = 0" "bits (numeral k) = Suc (bits (numeral k div 2))"
  by (simp_all add: bits.simps)

lemma split_from_concat:
  "concat (split_from piece in_run us) = piece @ filter (\<lambda>u. \<not> is_separator u) us"
  by (induction us arbitrary: piece in_run) simp_all

lemma split_from_no_separator:
  assumes "\<forall>u\<in>set piece. \<not> is_separator u" and "token \<in> set (split_from piece in_run us)"
  shows "\<forall>u\<in>set token. \<not> is_separator u"
  using assms
proof (induction us arbitrary: piece in_run)
  case Nil
  then show ?case by simp
next
  case (Cons u us)
  show ?case
  proof (cases "is_separator u")
    case True
    with Cons.prems have "token = piece \<or> token \<in> set (split_from piece True us)
        \<or> token \<in> set (split_from [] True us)"
      by (auto split: if_splits)
    then show ?thesis
      using Cons.IH [of piece True] Cons.IH [of "[]" True] Cons.prems(1) by auto
  next
    case False
    with Cons.prems have "token \<in> set (split_from (piece @ [u]) False us)" by simp
    moreover have "\<forall>v\<in>set (piece @ [u]). \<not> is_separator v"
      using Cons.prems(1) False by auto
    ultimately show ?thesis using Cons.IH by blast
  qed
qed

lemma file_id_ok_iff: "file_id_ok x \<longleftrightarrow> (\<exists>q. x = Finite q \<and> 10000 \<le> q \<and> q \<le> 100000000)"
  by (cases x) auto

lemma cu_char_of: "m < 256 \<Longrightarrow> cu (char_of m) = m"
  by (simp add: cu_def)

lemma cu_digit_char: "d < 10 \<Longrightarrow> cu (digit_char d) = 48 + d"
  by (simp add: cu_char_of digit_char.simps)

lemma is_digit_iff: "is_digit u \<longleftrightarrow> 48 \<le> u \<and> u \<le> 57"
  by (simp add: is_digit_def cu_def)

lemma hex_value_digit: "is_digit u \<Longrightarrow> hex_value u = Some (u - 48)"
  by (simp add: is_digit_iff hex_value_def cu_def)

lemma decimal_digits:
  "list_all is_digit (str (nat_to_string n)) \<and> str (nat_to_string n) \<noteq> []
   \<and> digits_value 10 (str (nat_to_string n)) = n"
proof (induction n rule: nat_to_string.induct)
  case (1 n)
  show ?case
  proof (cases "n < 10")
    case True
    then show ?thesis
      by (simp add: nat_to_string.simps [of n] str_def cu_digit_char is_digit_iff
          digits_value_def hex_value_digit)
  next
    case False
    have d: "is_digit (cu (digit_char (n mod 10)))"
      by (simp add: cu_digit_char is_digit_iff)
    have "digits_value 10 (str (nat_to_string (n div 10)) @ [cu (digit_char (n mod 10))])
        = digits_value 10 (str (nat_to_string (n div 10))) * 10 + n mod 10"
      using d by (simp add: digits_value_def hex_value_digit cu_digit_char)
    then show ?thesis
      using False 1 d by (simp add: nat_to_string.simps [of n] str_def)
  qed
qed

lemma bits_bounds: "0 < n \<Longrightarrow> 2 ^ (bits n - 1) \<le> n \<and> n < 2 ^ bits n"
proof (induction n rule: bits.induct)
  case (1 n)
  show ?case
  proof (cases "n div 2 = 0")
    case True
    then have "n = 1" using 1(2) by auto
    then show ?thesis by (simp add: bits.simps [of "Suc 0"] bits.simps [of 0])
  next
    case False
    then have ih: "2 ^ (bits (n div 2) - 1) \<le> n div 2 \<and> n div 2 < 2 ^ bits (n div 2)"
      using 1 by simp
    have pos: "0 < bits (n div 2)"
      using False by (simp add: bits.simps [of "n div 2"])
    have b: "bits n = Suc (bits (n div 2))"
      using 1(2) by (simp add: bits.simps [of n])
    have "2 ^ bits (n div 2) = (2::nat) * 2 ^ (bits (n div 2) - 1)"
      using pos by (cases "bits (n div 2)") simp_all
    then have "2 ^ (bits n - 1) \<le> n" using ih b by simp linarith
    moreover have "n < 2 ^ bits n" using ih b by simp linarith
    ultimately show ?thesis by simp
  qed
qed

lemma bits_le: "n < 2 ^ k \<Longrightarrow> bits n \<le> k"
proof (cases "n = 0")
  case True
  then show ?thesis by (simp add: bits.simps [of 0])
next
  case False
  assume "n < 2 ^ k"
  have "(2::nat) ^ (bits n - 1) \<le> n" using bits_bounds [of n] False by blast
  then have lt: "(2::nat) ^ (bits n - 1) < 2 ^ k" using \<open>n < 2 ^ k\<close> by (rule le_less_trans)
  have "bits n - 1 < k"
    by (rule power_less_imp_less_exp [OF _ lt]) simp
  then show ?thesis by simp
qed

lemma round_double_integer:
  assumes "n < 2 ^ 53"
  shows "round_double n 1 = Finite (of_nat n)"
proof (cases "n = 0")
  case True
  then show ?thesis by (simp add: round_double_def)
next
  case False
  define b where "b = bits n"
  have b: "0 < b" "b \<le> 53" "2 ^ (b - 1) \<le> n"
    using False assms bits_bounds [of n] bits_le [of n 53]
    by (simp_all add: b_def bits.simps [of n])
  have one: "bits (Suc 0) = Suc 0"
    by (simp add: bits.simps [of "Suc 0"] bits.simps [of 0])
  define e :: int where "e = int b - 1"
  have e: "0 \<le> e" "e \<le> 52" "nat e = b - 1"
    using b by (simp_all add: e_def)
  have cond: "1 * 2 ^ nat (int (bits n) - int (bits 1)) \<le> n * 2 ^ nat (- (int (bits n) - int (bits 1)))"
    using b(1,3) by (simp add: one b_def [symmetric] nat_diff_distrib')
  have rnd: "round_half_even (n * 2 ^ nat (52 - e)) (1 * 2 ^ nat (e - 52)) = n * 2 ^ nat (52 - e)"
    using e by (simp add: round_half_even_def)
  have val: "of_nat (n * 2 ^ nat (52 - e)) * pow2 (e - 52) = (of_nat n :: rat)"
  proof (cases "e = 52")
    case True
    then show ?thesis by (simp add: pow2_def)
  next
    case False
    then have "e - 52 < 0" using e by simp
    then have "pow2 (e - 52) = 1 / 2 ^ nat (52 - e)"
      by (simp add: pow2_def)
    then show ?thesis by simp
  qed
  have small: "\<not> (2 ^ 1024 \<le> (of_nat n :: rat))"
  proof -
    have "(of_nat n :: rat) < of_nat (2 ^ 53)" using assms by (simp only: of_nat_less_iff)
    also have "\<dots> < 2 ^ 1024" by simp
    finally show ?thesis by simp
  qed
  have "round_double n 1 =
      (let d = int (bits n) - int (bits 1);
             e = (if 1 * 2 ^ nat d \<le> n * 2 ^ nat (- d) then d else d - 1);
             e = max e (- 1022);
             m = round_half_even (n * 2 ^ nat (52 - e)) (1 * 2 ^ nat (e - 52));
             v = of_nat m * pow2 (e - 52)
         in if 2 ^ 1024 \<le> v then PosInfinity else Finite v)"
    using False by (simp add: round_double_def)
  also have "\<dots> = (let v = of_nat (round_half_even (n * 2 ^ nat (52 - e)) (1 * 2 ^ nat (e - 52))) * pow2 (e - 52)
         in if 2 ^ 1024 \<le> v then PosInfinity else Finite v)"
    using cond e(1) by (simp add: Let_def one b_def [symmetric] e_def [symmetric] max_def)
  also have "\<dots> = Finite (of_nat n)"
    unfolding rnd Let_def val using small by simp
  finally show ?thesis .
qed

lemma digit_not_separator: "is_digit u \<Longrightarrow> \<not> is_separator u"
  by (auto simp: is_digit_iff is_separator_def is_space_def cu_def)

lemma digit_not_space: "is_digit u \<Longrightarrow> \<not> is_space u"
  by (auto simp: is_digit_iff is_space_def)

lemma trim_digits:
  assumes "list_all is_digit s"
  shows "trim s = s"
proof (cases "s = []")
  case True
  then show ?thesis by (simp add: trim_def)
next
  case False
  have "\<not> is_space (hd s)"
    using assms False by (cases s) (simp_all add: digit_not_space)
  then have a: "dropWhile is_space s = s"
    by (simp add: dropWhile_eq_self_iff)
  have "\<not> is_space (hd (rev s))"
    using assms False by (simp add: hd_rev list_all_iff digit_not_space)
  then have "dropWhile is_space (rev s) = rev s"
    by (simp add: dropWhile_eq_self_iff)
  then show ?thesis by (simp add: trim_def a)
qed

lemma Number_digits:
  assumes digits: "list_all is_digit s" and ne: "s \<noteq> []"
    and small: "digits_value 10 s < 2 ^ 53"
  shows "Number s = Finite (of_nat (digits_value 10 s))"
proof -
  obtain u r where s: "s = u # r" using ne by (cases s) auto
  have u: "is_digit u" using digits s by simp
  have nd: "parse_non_decimal s = None"
  proof (cases r)
    case Nil
    then show ?thesis by (simp add: s)
  next
    case (Cons x ds)
    then have "is_digit x" using digits s by simp
    then have "non_decimal_base x = None"
      by (auto simp: is_digit_iff non_decimal_base_def cu_def)
    then show ?thesis by (simp add: s Cons)
  qed
  have sign: "u \<noteq> cu CHR ''+''" "u \<noteq> cu CHR ''-''"
    using u by (auto simp: is_digit_iff cu_def)
  have inf: "s \<noteq> str ''Infinity''"
    using u by (auto simp: s str_def is_digit_iff cu_def)
  have tk: "takeWhile is_digit s = s" "dropWhile is_digit s = []"
    using digits by (simp_all add: list_all_iff)
  have "parse_unsigned_decimal s = Some (round_double (digits_value 10 s) 1)"
    using inf ne by (simp add: parse_unsigned_decimal_def tk parse_exponent_def round_decimal_def)
  moreover have "trim (u # r) = u # r"
    using trim_digits [OF digits] by (simp add: s)
  ultimately have "Number s = round_double (digits_value 10 s) 1"
    using nd sign by (simp add: Number_def s or_NaN_def)
  also have "\<dots> = Finite (of_nat (digits_value 10 s))"
    using small by (rule round_double_integer)
  finally show ?thesis .
qed

lemma split_from_digits:
  assumes "list_all is_digit ds"
  shows "split_from piece in_run (ds @ rest)
      = (if ds = [] then split_from piece in_run rest else split_from (piece @ ds) False rest)"
  using assms
proof (induction ds arbitrary: piece in_run)
  case Nil
  then show ?case by simp
next
  case (Cons d ds)
  then have "\<not> is_separator d" by (simp add: digit_not_separator)
  then show ?case using Cons by simp
qed

lemma split_separators_join:
  "split_separators (join_ids ns) = (if ns = [] then [str []] else map (\<lambda>n. str (nat_to_string n)) ns)"
proof -
  have "split_from [] in_run (join_ids ns) = map (\<lambda>n. str (nat_to_string n)) ns"
    if "ns \<noteq> []" for in_run
    using that
  proof (induction ns arbitrary: in_run rule: join_ids.induct)
    case 1
    then show ?case by simp
  next
    case (2 n)
    have "split_from [] in_run (str (nat_to_string n) @ []) = [str (nat_to_string n)]"
      using decimal_digits [of n] by (subst split_from_digits) simp_all
    then show ?case by simp
  next
    case (3 n m ns)
    have sep: "split_from piece False (str '', '' @ rest) = piece # split_from [] True rest"
      for piece rest
      by (simp add: str_def is_separator_def is_space_def cu_def)
    have "split_from [] in_run (str (nat_to_string n) @ str '', '' @ join_ids (m # ns))
        = split_from (str (nat_to_string n)) False (str '', '' @ join_ids (m # ns))"
      using decimal_digits [of n] by (subst split_from_digits) simp_all
    also have "\<dots> = str (nat_to_string n) # split_from [] True (join_ids (m # ns))"
      by (rule sep)
    finally show ?case using 3 by simp
  qed
  then show ?thesis
    by (cases "ns = []") (simp_all add: split_separators_def str_def)
qed

lemma parseFileIds_join:
  assumes "\<forall>n\<in>set ns. n < 2 ^ 53"
  shows "parseFileIds (join_ids ns)
      = map (\<lambda>n. Finite (of_nat n)) (filter (\<lambda>n. 10000 \<le> n \<and> n \<le> 100000000) ns)"
proof (cases "ns = []")
  case True
  then show ?thesis
    by (simp add: parseFileIds_def split_separators_def Number_def trim_def)
next
  case False
  have num: "Number (trim (str (nat_to_string n))) = Finite (of_nat n)" if "n \<in> set ns" for n
  proof -
    have d: "list_all is_digit (str (nat_to_string n))" "str (nat_to_string n) \<noteq> []"
      "digits_value 10 (str (nat_to_string n)) = n"
      using decimal_digits [of n] by simp_all
    have "n < 2 ^ 53" using assms that by simp
    then show ?thesis
      using Number_digits [OF d(1,2)] by (simp add: d(3) trim_digits [OF d(1)])
  qed
  have "map (\<lambda>token. Number (trim token)) (split_separators (join_ids ns))
      = map (\<lambda>n. Finite (of_nat n)) ns"
    using False num by (simp add: split_separators_join)
  then have "parseFileIds (join_ids ns) = filter file_id_ok (map (\<lambda>n. Finite (of_nat n)) ns)"
    by (simp add: parseFileIds_def)
  also have "\<dots> = map (\<lambda>n. Finite (of_nat n)) (filter (\<lambda>n. 10000 \<le> n \<and> n \<le> 100000000) ns)"
  proof -
    have "file_id_ok (Finite (of_nat n)) \<longleftrightarrow> 10000 \<le> n \<and> n \<le> 100000000" for n :: nat
    proof -
      have "(10000 \<le> (of_nat n :: rat)) = (10000 \<le> n)"
        using of_nat_le_iff [of 10000 n, where ?'a = rat] by simp
      moreover have "((of_nat n :: rat) \<le> 100000000) = (n \<le> 100000000)"
        using of_nat_le_iff [of n 100000000, where ?'a = rat] by simp
      ultimately show ?thesis by simp
    qed
    then show ?thesis by (simp add: filter_map comp_def)
  qed
  finally show ?thesis .
qed

text \<open>
  C1, as stated, has every element of the result an integer. The filter tests
  \<^verbatim>\<open>Number.isFinite\<close> and the two bounds only: the input \<^verbatim>\<open>70000.5\<close> gives the one
  element 70000.5.
\<close>

theorem parseFileIds_fraction_counterexample:
  "parseFileIds (str ''70000.5'') = [Finite (140001 / 2)] \<and> (140001 / 2 :: rat) \<notin> \<int>"
proof -
  have "(140001 / 2 :: rat) \<notin> \<int>"
  proof
    assume "(140001 / 2 :: rat) \<in> \<int>"
    then obtain z :: int where "(140001 / 2 :: rat) = of_int z"
      by (auto elim: Ints_cases)
    then have "(of_int (2 * z) :: rat) = of_int 140001"
      by simp
    then have "2 * z = 140001"
      by (simp only: of_int_eq_iff)
    then show False by presburger
  qed
  moreover have "parseFileIds (str ''70000.5'') = [Finite (140001 / 2)]"
    by (simp add: parse_defs bits_numeral Let_def)
  ultimately show ?thesis by simp
qed

text \<open>
  C1 (amended). For every input string, parseFileIds returns, in input order, the values
  \<^verbatim>\<open>Number(token.trim())\<close> of the comma/whitespace-separated tokens that are finite and lie
  between 10000 and 100000000: a subsequence of the token values, every element of which
  is a finite number \<open>q\<close> with \<open>10000 \<le> q \<le> 100000000\<close> (an integer or not). The tokens
  hold no separator, and together they are the input without its separators. For a list of
  identifiers below \<open>2 ^ 53\<close>, written in decimal and separated by a comma and a space, the
  result is the list of its members in range, in order.
\<close>

theorem parseFileIds_range:
  "parseFileIds input
     = filter file_id_ok (map (\<lambda>token. Number (trim token)) (split_separators input))
   \<and> subseq (parseFileIds input) (map (\<lambda>token. Number (trim token)) (split_separators input))
   \<and> (\<forall>x\<in>set (parseFileIds input). \<exists>q. x = Finite q \<and> 10000 \<le> q \<and> q \<le> 100000000)
   \<and> (\<forall>token\<in>set (split_separators input). \<forall>u\<in>set token. \<not> is_separator u)
   \<and> concat (split_separators input) = filter (\<lambda>u. \<not> is_separator u) input
   \<and> ((\<forall>n\<in>set ns. n < 2 ^ 53) \<longrightarrow>
        parseFileIds (join_ids ns)
          = map (\<lambda>n. Finite (of_nat n)) (filter (\<lambda>n. 10000 \<le> n \<and> n \<le> 100000000) ns))"
proof -
  have "\<forall>x\<in>set (parseFileIds input). \<exists>q. x = Finite q \<and> 10000 \<le> q \<and> q \<le> 100000000"
    by (simp add: parseFileIds_def file_id_ok_iff)
  moreover have "\<forall>token\<in>set (split_separators input). \<forall>u\<in>set token. \<not> is_separator u"
    unfolding split_separators_def
    using split_from_no_separator [of "[]" _ False input] by simp
  moreover have "concat (split_separators input) = filter (\<lambda>u. \<not> is_separator u) input"
    by (simp add: split_separators_def split_from_concat)
  moreover have "parseFileIds (join_ids ns)
      = map (\<lambda>n. Finite (of_nat n)) (filter (\<lambda>n. 10000 \<le> n \<and> n \<le> 100000000) ns)"
    if "\<forall>n\<in>set ns. n < 2 ^ 53"
    using that by (rule parseFileIds_join)
  ultimately show ?thesis
    by (simp add: parseFileIds_def)
qed

theorem parseFileIds_range_witness:
  "parseFileIds (str ''70000, 71000, 72000'') = [Finite 70000, Finite 71000, Finite 72000]
   \<and> split_separators (str ''70000, 71000, 72000'') = [str ''70000'', str ''71000'', str ''72000'']"
proof -
  have "parseFileIds (str ''70000, 71000, 72000'') = [Finite 70000, Finite 71000, Finite 72000]"
    by (simp add: parse_defs bits_numeral Let_def)
  moreover have "split_separators (str ''70000, 71000, 72000'')
      = [str ''70000'', str ''71000'', str ''72000'']"
    by (simp add: split_separators_def str_def cu_def is_separator_def is_space_def)
  ultimately show ?thesis
    using parseFileIds_range [of "str ''70000, 71000, 72000''"] by simp
qed

section \<open>Properties of the engine\<close>

subsection \<open>Idempotency of Initiate\<close>

lemma get_record_Some:
  "get_record eng jid = Some r \<Longrightarrow> r \<in> set (registry eng) \<and> rec_jobId r = jid"
  unfolding get_record_def by (auto simp: find_Some_iff)

lemma get_record_distinct:
  assumes "distinct (map rec_jobId (registry eng))" and "r \<in> set (registry eng)"
  shows "get_record eng (rec_jobId r) = Some r"
proof -
  obtain r' where r': "get_record eng (rec_jobId r) = Some r'"
    using assms(2) unfolding get_record_def by (cases "find (\<lambda>x. rec_jobId x = rec_jobId r) (registry eng)")
      (auto simp: find_None_iff)
  then have "r' \<in> set (registry eng)" "rec_jobId r' = rec_jobId r"
    using get_record_Some by auto
  then have "r' = r"
    using assms by (auto simp: distinct_map inj_on_def)
  with r' show ?thesis by simp
qed

lemma existing_job_Some:
  assumes "existing_job eng key = Some r"
  shows "\<exists>k. key = Some k \<and> map_of (idem_index eng) k = Some (rec_jobId r)
           \<and> r \<in> set (registry eng) \<and> unexpired (clock eng) r"
  using assms
  by (auto simp: existing_job_def split: option.splits if_splits dest: get_record_Some)

lemma existing_job_found:
  assumes "distinct (map rec_jobId (registry eng))" and "r \<in> set (registry eng)"
    and "map_of (idem_index eng) k = Some (rec_jobId r)" and "unexpired (clock eng) r"
  shows "existing_job eng (Some k) = Some r"
  using assms by (simp add: existing_job_def get_record_distinct)

text \<open>The two ways in which \<^verbatim>\<open>Initiate\<close> leaves the engine: unchanged, or with one new record.\<close>

lemma Initiate_cases:
  obtains (invalid) "\<not> valid_request req" "Initiate cfg req eng = (Inl validation, eng)"
  | (hit) r where "valid_request req"
      "existing_job eng (idem_key (req_userId req) (req_clientRequestId req)) = Some r"
      "Initiate cfg req eng = (Inr (response_of r), eng)"
  | (created) r where
      "existing_job eng (idem_key (req_userId req) (req_clientRequestId req)) = None"
      "rec_jobId r = next_id eng" "rec_key r = idem_key (req_userId req) (req_clientRequestId req)"
      "rec_expiresAt r = clock eng + jobTtl cfg"
      "registry (snd (Initiate cfg req eng)) = registry eng @ [r]"
      "idem_index (snd (Initiate cfg req eng)) =
         (case rec_key r of None \<Rightarrow> idem_index eng
          | Some k \<Rightarrow> map_set k (rec_jobId r) (idem_index eng))"
      "next_id (snd (Initiate cfg req eng)) = next_id eng + 1"
      "clock (snd (Initiate cfg req eng)) = clock eng"
      "fst (Initiate cfg req eng) = Inl serviceBusy
       \<or> fst (Initiate cfg req eng) = Inr (response_of r)"
proof (cases "valid_request req")
  case False
  then have "Initiate cfg req eng = (Inl validation, eng)" by (simp add: Initiate_def)
  with False show ?thesis by (rule invalid)
next
  case True
  show ?thesis
  proof (cases "existing_job eng (idem_key (req_userId req) (req_clientRequestId req))")
    case (Some r)
    then have "Initiate cfg req eng = (Inr (response_of r), eng)"
      using True by (simp add: Initiate_def)
    with True Some show ?thesis by (rule hit)
  next
    case None
    define r where "r = \<lparr>rec_jobId = next_id eng, rec_fileIds = req_fileIds req,
                          rec_clientRequestId = req_clientRequestId req,
                          rec_userId = req_userId req,
                          rec_priority = (case request_priority req of Some p \<Rightarrow> p | None \<Rightarrow> standard),
                          rec_status = queued, rec_attempts = 0,
                          rec_createdAt = clock eng,
                          rec_expiresAt = clock eng + jobTtl cfg\<rparr>"
    show ?thesis
    proof (rule created [of r])
      show "existing_job eng (idem_key (req_userId req) (req_clientRequestId req)) = None"
        by (fact None)
      show "rec_jobId r = next_id eng" by (simp add: r_def)
      show "rec_key r = idem_key (req_userId req) (req_clientRequestId req)"
        by (simp add: r_def rec_key_def)
      show "rec_expiresAt r = clock eng + jobTtl cfg" by (simp add: r_def)
      show "registry (snd (Initiate cfg req eng)) = registry eng @ [r]"
        using True None
        by (auto simp: Initiate_def Let_def r_def enqueue_def split: option.splits priority.splits)
      show "idem_index (snd (Initiate cfg req eng)) =
         (case rec_key r of None \<Rightarrow> idem_index eng
          | Some k \<Rightarrow> map_set k (rec_jobId r) (idem_index eng))"
        using True None
        by (auto simp: Initiate_def Let_def r_def rec_key_def enqueue_def
            split: option.splits priority.splits)
      show "next_id (snd (Initiate cfg req eng)) = next_id eng + 1"
        using True None
        by (auto simp: Initiate_def Let_def enqueue_def split: option.splits priority.splits)
      show "clock (snd (Initiate cfg req eng)) = clock eng"
        using True None
        by (auto simp: Initiate_def Let_def enqueue_def split: option.splits priority.splits)
      show "fst (Initiate cfg req eng) = Inl serviceBusy
       \<or> fst (Initiate cfg req eng) = Inr (response_of r)"
        using True None
        by (auto simp: Initiate_def Let_def r_def enqueue_def split: option.splits priority.splits)
    qed
  qed
qed



lemma set_map_set: "set (map_set k v kvs) \<subseteq> insert (k, v) (set kvs)"
  by (induction kvs) (auto split: if_splits)

lemma engine_inv_Initiate:
  assumes inv: "engine_inv eng"
  shows "engine_inv (snd (Initiate cfg req eng))"
proof (cases rule: Initiate_cases [of req cfg eng])
  case invalid
  with inv show ?thesis by simp
next
  case (hit r)
  with inv show ?thesis by simp
next
  case (created r)
  let ?e = "snd (Initiate cfg req eng)"
  have ids: "\<forall>x\<in>set (registry eng). rec_jobId x < next_id eng"
    and idx: "\<forall>kj\<in>set (idem_index eng). snd kj < next_id eng"
    and dist: "distinct (map rec_jobId (registry eng))"
    and dkeys: "distinct (map fst (idem_index eng))"
    and act: "\<And>x k. x \<in> set (registry eng) \<Longrightarrow> rec_key x = Some k \<Longrightarrow>
                map_of (idem_index eng) k = Some (rec_jobId x) \<or> \<not> unexpired (clock eng) x"
    and keyed: "\<And>x k. x \<in> set (registry eng) \<Longrightarrow> map_of (idem_index eng) k = Some (rec_jobId x)
                \<Longrightarrow> rec_key x = Some k"
    using inv unfolding engine_inv_def by blast+
  have idx_lt: "j < next_id eng" if "map_of (idem_index eng) k = Some j" for k j
    using idx that by (fastforce dest: map_of_SomeD)
  have index': "map_of (idem_index ?e) k =
      (if rec_key r = Some k then Some (next_id eng) else map_of (idem_index eng) k)" for k
    by (cases "rec_key r") (auto simp: created(6) created(2) map_of_map_set)
  have c1: "\<forall>x\<in>set (registry ?e). rec_jobId x < next_id ?e"
    using ids by (auto simp: created(5) created(7) created(2))
  have c2: "\<forall>kj\<in>set (idem_index ?e). snd kj < next_id ?e"
  proof -
    have "set (idem_index ?e) \<subseteq> set (idem_index eng) \<union> {kj. snd kj = next_id eng}"
    proof (cases "rec_key r")
      case None
      then show ?thesis by (simp add: created(6))
    next
      case (Some k)
      have "set (map_set k (next_id eng) (idem_index eng))
              \<subseteq> insert (k, next_id eng) (set (idem_index eng))"
        by (rule set_map_set)
      then show ?thesis using Some by (auto simp: created(6) created(2))
    qed
    then show ?thesis using idx by (fastforce simp: created(7))
  qed
  have c3: "distinct (map rec_jobId (registry ?e))"
    using dist ids by (auto simp: created(5) created(2))
  have c4: "map_of (idem_index ?e) k = Some (rec_jobId x) \<or> \<not> unexpired (clock ?e) x"
    if "x \<in> set (registry ?e)" "rec_key x = Some k" for x k
  proof (cases "x = r")
    case True
    then show ?thesis using that by (simp add: index' created(2))
  next
    case False
    then have x: "x \<in> set (registry eng)" using that(1) by (simp add: created(5))
    show ?thesis
    proof (cases "rec_key r = Some k")
      case True
      have "\<not> unexpired (clock eng) x"
      proof
        assume u: "unexpired (clock eng) x"
        then have "map_of (idem_index eng) k = Some (rec_jobId x)"
          using act [OF x that(2)] by simp
        with dist x u have "existing_job eng (Some k) = Some x"
          by (simp add: existing_job_found)
        then show False using created(1) created(3) True by simp
      qed
      then show ?thesis by (simp add: created(8))
    next
      case False
      then show ?thesis using act [OF x that(2)] by (simp add: index' created(8))
    qed
  qed
  have c5: "rec_key x = Some k"
    if "x \<in> set (registry ?e)" "map_of (idem_index ?e) k = Some (rec_jobId x)" for x k
  proof (cases "x = r")
    case True
    show ?thesis
    proof (cases "rec_key r = Some k")
      case True
      then show ?thesis using \<open>x = r\<close> by simp
    next
      case False
      then have "map_of (idem_index eng) k = Some (next_id eng)"
        using that(2) \<open>x = r\<close> by (simp add: index' created(2))
      then show ?thesis using idx_lt by blast
    qed
  next
    case False
    then have x: "x \<in> set (registry eng)" using that(1) by (simp add: created(5))
    then have lt: "rec_jobId x < next_id eng" using ids by blast
    show ?thesis
    proof (cases "rec_key r = Some k")
      case True
      then show ?thesis using that(2) lt by (simp add: index')
    next
      case False
      then show ?thesis using that(2) keyed [OF x] by (simp add: index')
    qed
  qed
  have c6: "distinct (map fst (idem_index ?e))"
    using dkeys by (cases "rec_key r") (simp_all add: created(6) distinct_map_set)
  show ?thesis
    unfolding engine_inv_def using c1 c2 c3 c4 c5 c6 by blast
qed

lemma sweep_records_set:
  "x \<in> set (sweep_records now rs) \<Longrightarrow>
     \<exists>y\<in>set rs. rec_jobId x = rec_jobId y \<and> rec_key x = rec_key y
       \<and> rec_expiresAt x = rec_expiresAt y \<and> (unexpired now y \<longrightarrow> x = y)"
  by (auto simp: sweep_records_def rec_key_def unexpired_def)

lemma sweep_records_ids:
  "map rec_jobId (sweep_records now rs)
     = map rec_jobId (filter (\<lambda>r. unexpired now r \<or> rec_status r \<notin> set terminalStatuses) rs)"
  by (simp add: sweep_records_def comp_def cong: map_cong)

lemma sweep_records_keeps:
  "x \<in> set rs \<Longrightarrow> unexpired now x \<Longrightarrow> x \<in> set (sweep_records now rs)"
  by (auto simp: sweep_records_def image_iff)

lemma map_of_filter_index:
  assumes "map_of kvs k = Some j" and "j \<in> S"
  shows "map_of (filter (\<lambda>(k, jid). jid \<in> S) kvs) k = Some j"
  using assms by (induction kvs) (auto split: if_splits)

lemma engine_inv_sweep:
  assumes inv: "engine_inv eng"
  shows "engine_inv (sweep eng)"
proof -
  let ?rs = "sweep_records (clock eng) (registry eng)"
  let ?S = "rec_jobId ` set ?rs"
  let ?idx = "filter (\<lambda>(k, jid). jid \<in> ?S) (idem_index eng)"
  have ids: "\<forall>x\<in>set (registry eng). rec_jobId x < next_id eng"
    and idx: "\<forall>kj\<in>set (idem_index eng). snd kj < next_id eng"
    and dist: "distinct (map rec_jobId (registry eng))"
    and dkeys: "distinct (map fst (idem_index eng))"
    and act: "\<And>x k. x \<in> set (registry eng) \<Longrightarrow> rec_key x = Some k \<Longrightarrow>
                map_of (idem_index eng) k = Some (rec_jobId x) \<or> \<not> unexpired (clock eng) x"
    and keyed: "\<And>x k. x \<in> set (registry eng) \<Longrightarrow> map_of (idem_index eng) k = Some (rec_jobId x)
                \<Longrightarrow> rec_key x = Some k"
    using inv unfolding engine_inv_def by blast+
  have fields: "registry (sweep eng) = ?rs" "idem_index (sweep eng) = ?idx"
    "next_id (sweep eng) = next_id eng" "clock (sweep eng) = clock eng"
    by (simp_all add: sweep_def Let_def)
  have c1: "\<forall>x\<in>set ?rs. rec_jobId x < next_id eng"
    using ids by (auto dest!: sweep_records_set)
  have c2: "\<forall>kj\<in>set ?idx. snd kj < next_id eng"
    using idx by auto
  have c3: "distinct (map rec_jobId ?rs)"
    using dist by (simp add: sweep_records_ids distinct_map_filter)
  have c6: "distinct (map fst ?idx)"
    using dkeys by (simp add: distinct_map_filter)
  have c4: "map_of ?idx k = Some (rec_jobId x) \<or> \<not> unexpired (clock eng) x"
    if "x \<in> set ?rs" "rec_key x = Some k" for x k
  proof -
    from sweep_records_set [OF that(1)] obtain y where y: "y \<in> set (registry eng)"
      "rec_jobId x = rec_jobId y" "rec_key x = rec_key y" "rec_expiresAt x = rec_expiresAt y"
      by blast
    from act [OF y(1)] that(2) y(3)
    have "map_of (idem_index eng) k = Some (rec_jobId y) \<or> \<not> unexpired (clock eng) y" by simp
    then show ?thesis
    proof
      assume "map_of (idem_index eng) k = Some (rec_jobId y)"
      moreover have "rec_jobId y \<in> ?S"
        unfolding y(2) [symmetric] using that(1) by (rule imageI)
      ultimately have "map_of ?idx k = Some (rec_jobId y)"
        by (rule map_of_filter_index)
      then show ?thesis by (simp add: y(2))
    next
      assume "\<not> unexpired (clock eng) y"
      then show ?thesis by (simp add: unexpired_def y(4))
    qed
  qed
  have c5: "rec_key x = Some k"
    if "x \<in> set ?rs" "map_of ?idx k = Some (rec_jobId x)" for x k
  proof -
    from sweep_records_set [OF that(1)] obtain y where y: "y \<in> set (registry eng)"
      "rec_jobId x = rec_jobId y" "rec_key x = rec_key y"
      by blast
    have "(k, rec_jobId x) \<in> set ?idx" using that(2) by (rule map_of_SomeD)
    then have "(k, rec_jobId x) \<in> set (idem_index eng)" by simp
    then have "map_of (idem_index eng) k = Some (rec_jobId x)"
      using dkeys by simp
    then show ?thesis using keyed [OF y(1)] y(2,3) by simp
  qed
  show ?thesis
    unfolding engine_inv_def fields using c1 c2 c3 c4 c5 c6 by blast
qed

lemma engine_inv_map:
  assumes reg: "registry eng' = map f (registry eng)"
    and same: "idem_index eng' = idem_index eng" "next_id eng' = next_id eng"
    and later: "clock eng \<le> clock eng'"
    and f: "\<And>r. rec_jobId (f r) = rec_jobId r" "\<And>r. rec_key (f r) = rec_key r"
      "\<And>r. rec_expiresAt (f r) = rec_expiresAt r"
    and inv: "engine_inv eng"
  shows "engine_inv eng'"
proof -
  have ids: "\<forall>x\<in>set (registry eng). rec_jobId x < next_id eng"
    and idx: "\<forall>kj\<in>set (idem_index eng). snd kj < next_id eng"
    and dist: "distinct (map rec_jobId (registry eng))"
    and dkeys: "distinct (map fst (idem_index eng))"
    and act: "\<And>x k. x \<in> set (registry eng) \<Longrightarrow> rec_key x = Some k \<Longrightarrow>
                map_of (idem_index eng) k = Some (rec_jobId x) \<or> \<not> unexpired (clock eng) x"
    and keyed: "\<And>x k. x \<in> set (registry eng) \<Longrightarrow> map_of (idem_index eng) k = Some (rec_jobId x)
                \<Longrightarrow> rec_key x = Some k"
    using inv unfolding engine_inv_def by blast+
  have c1: "\<forall>x\<in>set (registry eng'). rec_jobId x < next_id eng'"
    using ids by (auto simp: reg same f)
  have c2: "\<forall>kj\<in>set (idem_index eng'). snd kj < next_id eng'"
    using idx by (simp add: same)
  have "map rec_jobId (registry eng') = map rec_jobId (registry eng)"
    by (simp add: reg comp_def f)
  then have c3: "distinct (map rec_jobId (registry eng'))"
    using dist by simp
  have c6: "distinct (map fst (idem_index eng'))"
    using dkeys by (simp add: same)
  have c4: "map_of (idem_index eng') k = Some (rec_jobId x) \<or> \<not> unexpired (clock eng') x"
    if mem: "x \<in> set (registry eng')" and key: "rec_key x = Some k" for x k
  proof -
    obtain y where y: "y \<in> set (registry eng)" "x = f y"
      using mem by (auto simp: reg)
    have "map_of (idem_index eng) k = Some (rec_jobId y) \<or> \<not> unexpired (clock eng) y"
      using act [OF y(1)] key by (simp add: y(2) f)
    then show ?thesis
      using later by (auto simp: same y(2) f unexpired_def)
  qed
  have c5: "rec_key x = Some k"
    if mem: "x \<in> set (registry eng')" and at: "map_of (idem_index eng') k = Some (rec_jobId x)"
    for x k
  proof -
    obtain y where y: "y \<in> set (registry eng)" "x = f y"
      using mem by (auto simp: reg)
    show ?thesis
      using keyed [OF y(1), of k] at by (simp add: same y(2) f)
  qed
  show ?thesis
    unfolding engine_inv_def using c1 c2 c3 c4 c5 c6 by blast
qed

lemma engine_inv_update:
  assumes inv: "engine_inv eng"
  shows "engine_inv (update_record cfg jid to n eng)"
proof (rule engine_inv_map [OF _ _ _ _ _ _ _ inv])
  show "registry (update_record cfg jid to n eng)
      = map (\<lambda>r. if rec_jobId r = jid \<and> (to = rec_status r \<or> legal_transition cfg r to)
                 then r\<lparr>rec_status := to, rec_attempts := n\<rparr> else r) (registry eng)"
    by (simp add: update_record_def)
qed (simp_all add: update_record_def rec_key_def)

lemma engine_inv_same:
  assumes "registry eng' = registry eng" "idem_index eng' = idem_index eng"
    "next_id eng' = next_id eng" "clock eng \<le> clock eng'"
    and inv: "engine_inv eng"
  shows "engine_inv eng'"
  by (rule engine_inv_map [where f = "\<lambda>r. r", OF _ _ _ _ _ _ _ inv]) (simp_all add: assms)

lemma engine_inv_apply_op:
  assumes "engine_inv eng"
  shows "engine_inv (apply_op cfg op eng)"
proof (cases op)
  case (Advance n)
  then show ?thesis using assms by (auto intro: engine_inv_same [of _ eng])
next
  case (CallInitiate req)
  then show ?thesis using assms by (simp add: engine_inv_Initiate)
next
  case Sweep
  then show ?thesis using assms by (simp add: engine_inv_sweep)
next
  case Dequeue
  then show ?thesis using assms
    by (auto simp: dequeue_def split: list.splits intro!: engine_inv_same [of _ eng])
next
  case (Update jid to n)
  then show ?thesis using assms by (simp add: engine_inv_update)
next
  case (Requeue jid p)
  then show ?thesis using assms
    by (auto simp: enqueue_def split: option.splits priority.splits if_splits
        intro!: engine_inv_same [of _ eng])
qed

lemma engine_inv_initial: "engine_inv initial_engine"
  by (simp add: engine_inv_def initial_engine_def)

lemma engine_inv_run: "engine_inv eng \<Longrightarrow> engine_inv (run_engine cfg ops eng)"
  unfolding run_engine_def by (induction ops arbitrary: eng) (simp_all add: engine_inv_apply_op)

lemma clock_apply_op: "clock eng \<le> clock (apply_op cfg op eng)"
proof (cases op)
  case (CallInitiate req)
  then show ?thesis
    by (cases rule: Initiate_cases [of req cfg eng]) simp_all
qed (auto simp: sweep_def dequeue_def update_record_def enqueue_def Let_def
      split: list.splits option.splits priority.splits)

lemma clock_run: "clock eng \<le> clock (run_engine cfg ops eng)"
  unfolding run_engine_def
proof (induction ops arbitrary: eng)
  case Nil
  then show ?case by simp
next
  case (Cons op ops)
  have "clock eng \<le> clock (apply_op cfg op eng)" by (rule clock_apply_op)
  also have "\<dots> \<le> clock (fold (apply_op cfg) ops (apply_op cfg op eng))" by (rule Cons.IH)
  finally show ?case by simp
qed

lemma tracked_same:
  assumes "registry eng' = registry eng" "idem_index eng' = idem_index eng"
    and "tracked eng k j E"
  shows "tracked eng' k j E"
  using assms by (simp add: tracked_def)

lemma tracked_apply_op:
  assumes inv: "engine_inv eng" and tr: "tracked eng k j E"
    and live: "clock (apply_op cfg op eng) \<le> E"
  shows "tracked (apply_op cfg op eng) k j E"
proof -
  from tr obtain r where idx: "map_of (idem_index eng) k = Some j"
    and r: "r \<in> set (registry eng)" "rec_jobId r = j" "rec_key r = Some k" "rec_expiresAt r = E"
    unfolding tracked_def by blast
  have dist: "distinct (map rec_jobId (registry eng))"
    using inv unfolding engine_inv_def by blast
  have now: "clock eng \<le> E"
    using clock_apply_op [of eng cfg op] live by simp
  then have unexp: "unexpired (clock eng) r"
    by (simp add: unexpired_def r(4))
  show ?thesis
  proof (cases op)
    case (Advance n)
    then show ?thesis using tr by (auto intro: tracked_same [of _ eng])
  next
    case (CallInitiate req)
    show ?thesis
    proof (cases rule: Initiate_cases [of req cfg eng])
      case invalid
      then show ?thesis using tr CallInitiate by simp
    next
      case (hit r')
      then show ?thesis using tr CallInitiate by simp
    next
      case (created r')
      have found: "existing_job eng (Some k) = Some r"
        using dist r(1) idx unexp by (simp add: existing_job_found r(2))
      then have other: "rec_key r' \<noteq> Some k"
        using created(1) created(3) by auto
      have "map_of (idem_index (snd (Initiate cfg req eng))) k = Some j"
        using other idx by (cases "rec_key r'") (auto simp: created(6) map_of_map_set)
      moreover have "r \<in> set (registry (snd (Initiate cfg req eng)))"
        using r(1) by (simp add: created(5))
      ultimately show ?thesis
        unfolding tracked_def using r(2-4) CallInitiate by auto
    qed
  next
    case Sweep
    have kept: "r \<in> set (sweep_records (clock eng) (registry eng))"
      using r(1) unexp by (rule sweep_records_keeps)
    then have "j \<in> rec_jobId ` set (sweep_records (clock eng) (registry eng))"
      using r(2) by force
    with idx have "map_of (filter (\<lambda>(k, jid). jid \<in> rec_jobId ` set (sweep_records (clock eng) (registry eng)))
                     (idem_index eng)) k = Some j"
      by (rule map_of_filter_index)
    then show ?thesis
      unfolding tracked_def using kept r(2-4) Sweep by (auto simp: sweep_def Let_def)
  next
    case Dequeue
    then show ?thesis using tr
      by (auto simp: dequeue_def split: list.splits intro!: tracked_same [of _ eng])
  next
    case (Update jid to n)
    let ?f = "\<lambda>r. if rec_jobId r = jid \<and> (to = rec_status r \<or> legal_transition cfg r to)
                 then r\<lparr>rec_status := to, rec_attempts := n\<rparr> else r"
    have "?f r \<in> set (registry (update_record cfg jid to n eng))"
      using r(1) by (simp add: update_record_def)
    moreover have "rec_jobId (?f r) = j" "rec_key (?f r) = Some k" "rec_expiresAt (?f r) = E"
      using r(2-4) by (simp_all add: rec_key_def)
    moreover have "map_of (idem_index (update_record cfg jid to n eng)) k = Some j"
      using idx by (simp add: update_record_def)
    ultimately show ?thesis
      unfolding tracked_def using Update by (simp only: apply_op.simps) blast
  next
    case (Requeue jid p)
    then show ?thesis using tr
      by (auto simp: enqueue_def split: option.splits priority.splits if_splits
          intro!: tracked_same [of _ eng])
  qed
qed

lemma tracked_run:
  assumes "engine_inv eng" and "tracked eng k j E" and "clock (run_engine cfg ops eng) \<le> E"
  shows "tracked (run_engine cfg ops eng) k j E"
  using assms
proof (induction ops arbitrary: eng)
  case Nil
  then show ?case by (simp add: run_engine_def)
next
  case (Cons op ops)
  have r: "run_engine cfg (op # ops) eng = run_engine cfg ops (apply_op cfg op eng)"
    by (simp add: run_engine_def)
  have "clock (apply_op cfg op eng) \<le> clock (run_engine cfg ops (apply_op cfg op eng))"
    by (rule clock_run)
  then have live: "clock (apply_op cfg op eng) \<le> E"
    using Cons.prems(3) r by simp
  have "tracked (apply_op cfg op eng) k j E"
    using Cons.prems(1,2) live by (rule tracked_apply_op)
  moreover have "engine_inv (apply_op cfg op eng)"
    using Cons.prems(1) by (rule engine_inv_apply_op)
  ultimately show ?case
    using Cons.IH Cons.prems(3) r by simp
qed

lemma Initiate_accepted_tracked:
  assumes inv: "engine_inv eng" and call: "Initiate cfg req eng = (Inr resp, eng')"
    and key: "idem_key (req_userId req) (req_clientRequestId req) = Some k"
  shows "tracked eng' k (ir_jobId resp) (ir_expiresAt resp)"
proof -
  have valid: "valid_request req"
    using call by (auto simp: Initiate_def split: if_splits)
  show ?thesis
  proof (cases "existing_job eng (Some k)")
    case (Some r)
    then have res: "resp = response_of r" "eng' = eng"
      using call valid key by (simp_all add: Initiate_def)
    from existing_job_Some [OF Some] have idx: "map_of (idem_index eng) k = Some (rec_jobId r)"
      and r: "r \<in> set (registry eng)" by auto
    have "rec_key r = Some k"
      using inv r idx unfolding engine_inv_def by blast
    then show ?thesis
      unfolding tracked_def using idx r by (auto simp: res response_of_def)
  next
    case None
    show ?thesis
    proof (cases rule: Initiate_cases [of req cfg eng])
      case invalid
      then show ?thesis using valid by simp
    next
      case (hit r)
      then show ?thesis using None key by simp
    next
      case (created r)
      have e: "eng' = snd (Initiate cfg req eng)" and f: "fst (Initiate cfg req eng) = Inr resp"
        using call by simp_all
      then have resp: "resp = response_of r" using created(9) by auto
      have rk: "rec_key r = Some k" using created(3) key by simp
      have "map_of (idem_index eng') k = Some (rec_jobId r)"
        by (simp add: e created(6) rk map_of_map_set)
      moreover have "r \<in> set (registry eng')"
        by (simp add: e created(5))
      ultimately show ?thesis
        unfolding tracked_def using rk by (auto simp: resp response_of_def)
    qed
  qed
qed

lemma Initiate_hit:
  assumes inv: "engine_inv eng" and tr: "tracked eng k j E" and live: "clock eng \<le> E"
    and valid: "valid_request req"
    and key: "idem_key (req_userId req) (req_clientRequestId req) = Some k"
  shows "snd (Initiate cfg req eng) = eng"
    and "\<exists>resp. fst (Initiate cfg req eng) = Inr resp \<and> ir_jobId resp = j \<and> ir_expiresAt resp = E"
proof -
  from tr obtain r where idx: "map_of (idem_index eng) k = Some j"
    and r: "r \<in> set (registry eng)" "rec_jobId r = j" "rec_key r = Some k" "rec_expiresAt r = E"
    unfolding tracked_def by blast
  have dist: "distinct (map rec_jobId (registry eng))"
    using inv unfolding engine_inv_def by blast
  have "unexpired (clock eng) r"
    using live by (simp add: unexpired_def r(4))
  then have found: "existing_job eng (Some k) = Some r"
    using dist r(1) idx by (simp add: existing_job_found r(2))
  then have "Initiate cfg req eng = (Inr (response_of r), eng)"
    using valid key by (simp add: Initiate_def)
  then show "snd (Initiate cfg req eng) = eng"
    and "\<exists>resp. fst (Initiate cfg req eng) = Inr resp \<and> ir_jobId resp = j \<and> ir_expiresAt resp = E"
    using r(2,4) by (simp_all add: response_of_def)
qed

lemma filter_single:
  assumes "distinct (map f xs)" and "r \<in> set xs" and "P r"
    and "\<And>x. x \<in> set xs \<Longrightarrow> P x \<Longrightarrow> f x = f r"
  shows "filter P xs = [r]"
  using assms
proof (induction xs)
  case Nil
  then show ?case by simp
next
  case (Cons x xs)
  show ?case
  proof (cases "x = r")
    case True
    have "filter P xs = []"
    proof (rule ccontr)
      assume "filter P xs \<noteq> []"
      then obtain y where y: "y \<in> set xs" "P y"
        by (auto simp: filter_empty_conv)
      have "f y = f r" using Cons.prems(4) [of y] y by simp
      then have "f x = f y" using True by simp
      then have "f x \<in> f ` set xs" using y(1) by (rule image_eqI)
      then show False using Cons.prems(1) by simp
    qed
    then show ?thesis using True Cons.prems(3) by simp
  next
    case False
    then have mem: "r \<in> set xs" using Cons.prems(2) by simp
    have "\<not> P x"
    proof
      assume "P x"
      then have "f x = f r" using Cons.prems(4) [of x] by simp
      then have "f x \<in> f ` set xs" using mem by (rule image_eqI)
      then show False using Cons.prems(1) by simp
    qed
    moreover have "filter P xs = [r]"
    proof (rule Cons.IH)
      show "distinct (map f xs)" using Cons.prems(1) by simp
      show "r \<in> set xs" by (fact mem)
      show "P r" by (fact Cons.prems(3))
      show "f y = f r" if "y \<in> set xs" "P y" for y
        using Cons.prems(4) [of y] that by simp
    qed
    ultimately show ?thesis by simp
  qed
qed

lemma active_with_key_single:
  assumes inv: "engine_inv eng" and tr: "tracked eng k j E" and live: "clock eng \<le> E"
  shows "map rec_jobId (active_with_key eng k) = [j]"
proof -
  from tr obtain r where idx: "map_of (idem_index eng) k = Some j"
    and r: "r \<in> set (registry eng)" "rec_jobId r = j" "rec_key r = Some k" "rec_expiresAt r = E"
    unfolding tracked_def by blast
  have dist: "distinct (map rec_jobId (registry eng))"
    and act: "\<And>x k. x \<in> set (registry eng) \<Longrightarrow> rec_key x = Some k \<Longrightarrow>
                map_of (idem_index eng) k = Some (rec_jobId x) \<or> \<not> unexpired (clock eng) x"
    using inv unfolding engine_inv_def by blast+
  have "filter (\<lambda>x. rec_key x = Some k \<and> unexpired (clock eng) x) (registry eng) = [r]"
  proof (rule filter_single [OF dist r(1)])
    show "rec_key r = Some k \<and> unexpired (clock eng) r"
      using live by (simp add: r(3) unexpired_def r(4))
    show "rec_jobId x = rec_jobId r"
      if "x \<in> set (registry eng)" "rec_key x = Some k \<and> unexpired (clock eng) x" for x
      using act [OF that(1), of k] that(2) idx r(2) by simp
  qed
  then show ?thesis
    by (simp add: active_with_key_def rec_key_def r(2))
qed

text \<open>
  C5 (amended). For any two valid Initiate calls with equal userId and equal non-empty
  clientRequestId, of which the first is accepted and the second is submitted before the
  first job expires, whatever the engine does in between: the second call returns the
  jobId of the first and leaves the engine as it is (no record is created and nothing is
  enqueued); that job is the only unexpired record with this key, and the registry holds
  exactly one record with this jobId.
\<close>

theorem Initiate_idempotent:
  assumes first: "Initiate cfg req1 (run_engine cfg history initial_engine) = (Inr resp1, eng1)"
    and key: "idem_key (req_userId req1) (req_clientRequestId req1) = Some k"
    and same_user: "req_userId req2 = req_userId req1"
    and same_crid: "req_clientRequestId req2 = req_clientRequestId req1"
    and valid: "valid_request req2"
    and live: "clock (run_engine cfg between eng1) \<le> ir_expiresAt resp1"
  shows "(\<exists>resp2. Initiate cfg req2 (run_engine cfg between eng1) = (Inr resp2, run_engine cfg between eng1)
            \<and> ir_jobId resp2 = ir_jobId resp1)
     \<and> map rec_jobId (active_with_key (run_engine cfg between eng1) k) = [ir_jobId resp1]
     \<and> length (filter (\<lambda>r. rec_jobId r = ir_jobId resp1) (registry (run_engine cfg between eng1))) = 1"
proof -
  let ?eng0 = "run_engine cfg history initial_engine"
  let ?eng2 = "run_engine cfg between eng1"
  have inv0: "engine_inv ?eng0"
    by (simp add: engine_inv_initial engine_inv_run)
  have "eng1 = snd (Initiate cfg req1 ?eng0)" using first by simp
  then have inv1: "engine_inv eng1"
    using inv0 by (simp add: engine_inv_Initiate)
  have tr1: "tracked eng1 k (ir_jobId resp1) (ir_expiresAt resp1)"
    using inv0 first key by (rule Initiate_accepted_tracked)
  have inv2: "engine_inv ?eng2"
    using inv1 by (rule engine_inv_run)
  have tr2: "tracked ?eng2 k (ir_jobId resp1) (ir_expiresAt resp1)"
    using inv1 tr1 live by (rule tracked_run)
  have key2: "idem_key (req_userId req2) (req_clientRequestId req2) = Some k"
    using key same_user same_crid by simp
  from Initiate_hit [OF inv2 tr2 live valid key2, of cfg]
  obtain resp2 where "snd (Initiate cfg req2 ?eng2) = ?eng2"
    "fst (Initiate cfg req2 ?eng2) = Inr resp2" "ir_jobId resp2 = ir_jobId resp1"
    by blast
  then have "Initiate cfg req2 ?eng2 = (Inr resp2, ?eng2) \<and> ir_jobId resp2 = ir_jobId resp1"
    by (simp add: prod_eq_iff)
  then have again: "\<exists>resp2. Initiate cfg req2 ?eng2 = (Inr resp2, ?eng2)
      \<and> ir_jobId resp2 = ir_jobId resp1"
    by (rule exI)
  have active: "map rec_jobId (active_with_key ?eng2 k) = [ir_jobId resp1]"
    using inv2 tr2 live by (rule active_with_key_single)
  from tr2 obtain r where r: "r \<in> set (registry ?eng2)" "rec_jobId r = ir_jobId resp1"
    unfolding tracked_def by blast
  have dist: "distinct (map rec_jobId (registry ?eng2))"
    using inv2 unfolding engine_inv_def by blast
  have "filter (\<lambda>x. rec_jobId x = ir_jobId resp1) (registry ?eng2) = [r]"
    using dist r(1) by (rule filter_single) (simp_all add: r(2))
  then have "length (filter (\<lambda>r. rec_jobId r = ir_jobId resp1) (registry ?eng2)) = 1"
    by simp
  with again active show ?thesis by blast
qed

lemma example_first_call:
  "Initiate example_engine_config example_request (run_engine example_engine_config [] initial_engine)
     = (Inr example_accepted,
        \<lparr>clock = 0, next_id = 1,
         registry = [\<lparr>rec_jobId = 0, rec_fileIds = [70000], rec_clientRequestId = Some ''abc'',
                      rec_userId = Some ''u1'', rec_priority = standard, rec_status = queued,
                      rec_attempts = 0, rec_createdAt = 0, rec_expiresAt = 3600000\<rparr>],
         idem_index = [((Some ''u1'', ''abc''), 0)],
         queue_standard = [0], queue_low = []\<rparr>)"
  by (simp add: Initiate_def run_engine_def initial_engine_def example_engine_config_def
      example_request_def example_accepted_def valid_request_def request_priority_def
      idem_key_def existing_job_def enqueue_def response_of_def Let_def)

text \<open>
  C5, as stated, holds of any two calls with equal \<^verbatim>\<open>(userId, clientRequestId)\<close>. The
  registry deduplicates only when \<^verbatim>\<open>clientRequestId\<close> is non-empty (4.3): two calls of the
  same user without one create the jobs 0 and 1, two records, both enqueued.
\<close>

theorem Initiate_no_key_counterexample:
  "fst (Initiate example_engine_config example_request_no_key initial_engine)
     = Inr \<lparr>ir_jobId = 0, ir_status = queued, ir_nextPollInMs = 2000, ir_expiresAt = 3600000,
            ir_totalFileIds = 1\<rparr>
   \<and> Initiate example_engine_config example_request_no_key
       (snd (Initiate example_engine_config example_request_no_key initial_engine))
     = (Inr \<lparr>ir_jobId = 1, ir_status = queued, ir_nextPollInMs = 2000, ir_expiresAt = 3600000,
             ir_totalFileIds = 1\<rparr>,
        \<lparr>clock = 0, next_id = 2,
         registry = [\<lparr>rec_jobId = 0, rec_fileIds = [70000], rec_clientRequestId = None,
                      rec_userId = Some ''u1'', rec_priority = standard, rec_status = queued,
                      rec_attempts = 0, rec_createdAt = 0, rec_expiresAt = 3600000\<rparr>,
                     \<lparr>rec_jobId = 1, rec_fileIds = [70000], rec_clientRequestId = None,
                      rec_userId = Some ''u1'', rec_priority = standard, rec_status = queued,
                      rec_attempts = 0, rec_createdAt = 0, rec_expiresAt = 3600000\<rparr>],
         idem_index = [],
         queue_standard = [0, 1], queue_low = []\<rparr>)"
  by (simp add: Initiate_def initial_engine_def example_engine_config_def
      example_request_no_key_def valid_request_def request_priority_def
      idem_key_def existing_job_def enqueue_def response_of_def Let_def)

lemma example_engine_after_first: "snd (Initiate example_engine_config example_request initial_engine) = \<lparr>clock = 0, next_id = 1,
         registry = [\<lparr>rec_jobId = 0, rec_fileIds = [70000], rec_clientRequestId = Some ''abc'',
                      rec_userId = Some ''u1'', rec_priority = standard, rec_status = queued,
                      rec_attempts = 0, rec_createdAt = 0, rec_expiresAt = 3600000\<rparr>],
         idem_index = [((Some ''u1'', ''abc''), 0)],
         queue_standard = [0], queue_low = []\<rparr>"
    using example_first_call by (simp add: run_engine_def)

lemma example_engine_between: "run_engine example_engine_config [Advance 50, Sweep] (snd (Initiate example_engine_config example_request initial_engine))
      = \<lparr>clock = 50, next_id = 1,
         registry = [\<lparr>rec_jobId = 0, rec_fileIds = [70000], rec_clientRequestId = Some ''abc'',
                      rec_userId = Some ''u1'', rec_priority = standard, rec_status = queued,
                      rec_attempts = 0, rec_createdAt = 0, rec_expiresAt = 3600000\<rparr>],
         idem_index = [((Some ''u1'', ''abc''), 0)],
         queue_standard = [0], queue_low = []\<rparr>"
    unfolding example_engine_after_first by (simp add: run_engine_def sweep_def sweep_records_def unexpired_def Let_def)

lemma example_second_call:  "fst (Initiate example_engine_config example_request
          \<lparr>clock = 50, next_id = 1,
           registry = [\<lparr>rec_jobId = 0, rec_fileIds = [70000], rec_clientRequestId = Some ''abc'',
                        rec_userId = Some ''u1'', rec_priority = standard, rec_status = queued,
                        rec_attempts = 0, rec_createdAt = 0, rec_expiresAt = 3600000\<rparr>],
           idem_index = [((Some ''u1'', ''abc''), 0)],
           queue_standard = [0], queue_low = []\<rparr>) = Inr example_accepted"
    by (simp add: Initiate_def example_engine_config_def
        example_request_def example_accepted_def valid_request_def request_priority_def
        idem_key_def existing_job_def get_record_def unexpired_def response_of_def Let_def)

theorem Initiate_idempotent_witness:
  "Initiate example_engine_config example_request
     (run_engine example_engine_config [Advance 50, Sweep]
        (snd (Initiate example_engine_config example_request initial_engine)))
   = (Inr example_accepted,
      run_engine example_engine_config [Advance 50, Sweep]
        (snd (Initiate example_engine_config example_request initial_engine)))
   \<and> map rec_jobId
        (active_with_key
           (run_engine example_engine_config [Advance 50, Sweep]
              (snd (Initiate example_engine_config example_request initial_engine)))
           (Some ''u1'', ''abc'')) = [0]"
proof -
  let ?eng1 = "snd (Initiate example_engine_config example_request initial_engine)"
  let ?eng2 = "run_engine example_engine_config [Advance 50, Sweep] ?eng1"
  have first: "Initiate example_engine_config example_request
      (run_engine example_engine_config [] initial_engine) = (Inr example_accepted, ?eng1)"
    using example_first_call by (simp add: run_engine_def)
  have key: "idem_key (req_userId example_request) (req_clientRequestId example_request)
      = Some (Some ''u1'', ''abc'')"
    by (simp add: idem_key_def example_request_def)
  have valid: "valid_request example_request"
    by (simp add: valid_request_def example_request_def request_priority_def)
  have live: "clock ?eng2 \<le> ir_expiresAt example_accepted"
    by (simp add: example_engine_between example_accepted_def)
  note idem = Initiate_idempotent [OF first key refl refl valid live]
  from idem have "\<exists>resp2. Initiate example_engine_config example_request ?eng2 = (Inr resp2, ?eng2)
      \<and> ir_jobId resp2 = ir_jobId example_accepted"
    by (rule conjunct1)
  then obtain resp2 where r: "Initiate example_engine_config example_request ?eng2 = (Inr resp2, ?eng2)"
    by (elim exE conjE)
  from idem have a: "map rec_jobId (active_with_key ?eng2 (Some ''u1'', ''abc''))
      = [ir_jobId example_accepted]"
    by (elim conjE)
  have "fst (Initiate example_engine_config example_request ?eng2) = Inr example_accepted"
    unfolding example_engine_between by (rule example_second_call)
  then have "resp2 = example_accepted"
    by (simp add: r)
  then show ?thesis
    using r a by (simp add: example_accepted_def)
qed

end
